theory Spec2Isabelle
  imports Main
begin

section \<open>Strings\<close>

text \<open>
  JavaScript strings are modelled as \<open>string\<close> (character lists).  The helpers below
  are the string primitives the program and the range parser use: character classes,
  \<open>split\<close>, \<open>join\<close>, and decimal numerals.
\<close>

definition isDigit :: "char \<Rightarrow> bool" where
  "isDigit c = (c \<in> set ''0123456789'')"

definition isSpace :: "char \<Rightarrow> bool" where
  "isSpace c = (c = CHR '' '' \<or> c = CHR 0x09 \<or> c = CHR 0x0A \<or> c = CHR 0x0D)"

definition isLetter :: "char \<Rightarrow> bool" where
  "isLetter c = (let n = (of_char c :: nat) in (65 \<le> n \<and> n \<le> 90) \<or> (97 \<le> n \<and> n \<le> 122))"

definition digitVal :: "char \<Rightarrow> nat" where
  "digitVal c = of_char c - 48"

definition toNat :: "string \<Rightarrow> nat" where
  "toNat s = foldl (\<lambda>n c. 10 * n + digitVal c) 0 s"

definition digitChar :: "nat \<Rightarrow> char" where
  "digitChar n = char_of (48 + n)"

fun showNat :: "nat \<Rightarrow> string" where
  "showNat n = (if n < 10 then [digitChar n] else showNat (n div 10) @ [digitChar (n mod 10)])"

declare showNat.simps [simp del]

fun consHead :: "char \<Rightarrow> string list \<Rightarrow> string list" where
  "consHead c [] = [[c]]"
| "consHead c (w # ws) = (c # w) # ws"

text \<open>\<open>s.split(sep)\<close> for a one-character separator predicate: \<open>''''\<close> splits to \<open>['''']\<close>.\<close>

fun splitWhen :: "(char \<Rightarrow> bool) \<Rightarrow> string \<Rightarrow> string list" where
  "splitWhen isSep [] = [[]]"
| "splitWhen isSep (c # cs) =
     (if isSep c then [] # splitWhen isSep cs else consHead c (splitWhen isSep cs))"

definition splitOn :: "char \<Rightarrow> string \<Rightarrow> string list" where
  "splitOn sep s = splitWhen (\<lambda>c. c = sep) s"

text \<open>\<open>s.split(/\s+/)\<close> without the empty pieces.\<close>

definition wordsOf :: "string \<Rightarrow> string list" where
  "wordsOf s = filter (\<lambda>w. w \<noteq> []) (splitWhen isSpace s)"

text \<open>\<open>s.split('||')\<close>.\<close>

fun splitOr :: "string \<Rightarrow> string list" where
  "splitOr (c # d # cs) =
     (if c = CHR ''|'' \<and> d = CHR ''|'' then [] # splitOr cs else consHead c (splitOr (d # cs)))"
| "splitOr [c] = [[c]]"
| "splitOr [] = [[]]"

text \<open>\<open>xs.join(sep)\<close>.\<close>

fun join :: "string \<Rightarrow> string list \<Rightarrow> string" where
  "join sep [] = []"
| "join sep [x] = x"
| "join sep (x # y # ys) = x @ sep @ join sep (y # ys)"

section \<open>The semver package\<close>

text \<open>
  Modelled from the spec: the \<open>semver\<close> package (\<open>Semver.satisfies\<close>, \<open>Semver.Range\<close>,
  \<open>Semver.compare\<close>, \<open>Semver.major\<close>, \<open>Semver.minor\<close>) is an external dependency of the
  program and is not part of its sources.  The model covers the data the specification
  names: version tokens \<open>major.minor.patch\<close> with an optional leading \<open>v\<close> and an optional
  pre-release tag, ordered by semantic-versioning precedence; and range expressions built
  from the wildcard \<open>*\<close>, caret ranges, comparator ranges (\<open><\<close>, \<open><=\<close>, \<open>>\<close>, \<open>>=\<close>, \<open>=\<close>,
  with whitespace allowed after the operator, on full or partial versions), whitespace
  for AND and \<open>||\<close> for OR.  Within this fragment the meaning is the one of node-semver
  with default options (pre-release versions are only admitted by a comparator set that
  names a pre-release of the same \<open>major.minor.patch\<close>; for major 0 a caret range is
  the narrower window node-semver gives it).  Tilde ranges, hyphen ranges, build metadata,
  surrounding whitespace of a version and the loose mode are outside the fragment: the
  model rejects such strings as unparsable.  Numbers are unbounded.
\<close>

datatype ident = Num nat | Str string

datatype semver = SemVer (major: nat) (minor: nat) (patch: nat) (prerelease: "ident list")

definition numericIdentifier :: "string \<Rightarrow> nat option" where
  "numericIdentifier s =
     (if s \<noteq> [] \<and> list_all isDigit s \<and> (length s = 1 \<or> hd s \<noteq> CHR ''0'')
      then Some (toNat s) else None)"

definition prereleaseIdentifier :: "string \<Rightarrow> ident option" where
  "prereleaseIdentifier s =
     (if s = [] \<or> \<not> list_all (\<lambda>c. isDigit c \<or> isLetter c \<or> c = CHR ''-'') s then None
      else if list_all isDigit s then map_option Num (numericIdentifier s)
      else Some (Str s))"

text \<open>The tag after the first \<open>-\<close>: dot-separated identifiers; absent when there is no \<open>-\<close>.\<close>

definition parsePrerelease :: "string \<Rightarrow> ident list option" where
  "parsePrerelease s =
     (case dropWhile (\<lambda>c. c \<noteq> CHR ''-'') s of
        [] \<Rightarrow> Some []
      | _ # tag \<Rightarrow> those (map prereleaseIdentifier (splitOn CHR ''.'' tag)))"

definition stripV :: "string \<Rightarrow> string" where
  "stripV s = (case s of c # cs \<Rightarrow> if c = CHR ''v'' then cs else s | [] \<Rightarrow> s)"

text \<open>\<open>new SemVer(version)\<close>; \<open>None\<close> is its \<open>TypeError\<close> (invalid version).\<close>

definition parseVersion :: "string \<Rightarrow> semver option" where
  "parseVersion version =
     (let s = stripV version in
      case map numericIdentifier (splitOn CHR ''.'' (takeWhile (\<lambda>c. c \<noteq> CHR ''-'') s)) of
        [Some M, Some m, Some p] \<Rightarrow> map_option (SemVer M m p) (parsePrerelease s)
      | _ \<Rightarrow> None)"

subsection \<open>Precedence\<close>

fun strLess :: "string \<Rightarrow> string \<Rightarrow> bool" where
  "strLess [] [] = False"
| "strLess [] (y # ys) = True"
| "strLess (x # xs) [] = False"
| "strLess (x # xs) (y # ys) =
     ((of_char x :: nat) < of_char y \<or> (x = y \<and> strLess xs ys))"

definition compareNat :: "nat \<Rightarrow> nat \<Rightarrow> int" where
  "compareNat a b = (if a = b then 0 else if a < b then -1 else 1)"

fun compareIdentifiers :: "ident \<Rightarrow> ident \<Rightarrow> int" where
  "compareIdentifiers (Num a) (Num b) = compareNat a b"
| "compareIdentifiers (Num a) (Str b) = -1"
| "compareIdentifiers (Str a) (Num b) = 1"
| "compareIdentifiers (Str a) (Str b) = (if a = b then 0 else if strLess a b then -1 else 1)"

text \<open>The loop of \<open>SemVer.comparePre\<close> over the identifiers of two tags.\<close>

fun comparePreLoop :: "ident list \<Rightarrow> ident list \<Rightarrow> int" where
  "comparePreLoop [] [] = 0"
| "comparePreLoop (a # as) [] = 1"
| "comparePreLoop [] (b # bs) = -1"
| "comparePreLoop (a # as) (b # bs) =
     (if a = b then comparePreLoop as bs else compareIdentifiers a b)"

text \<open>\<open>SemVer.comparePre\<close>: a release is above its pre-releases.\<close>

definition comparePre :: "ident list \<Rightarrow> ident list \<Rightarrow> int" where
  "comparePre pa pb =
     (if pa \<noteq> [] \<and> pb = [] then -1
      else if pa = [] \<and> pb \<noteq> [] then 1
      else comparePreLoop pa pb)"

text \<open>\<open>SemVer.compare\<close>: \<open>compareMain || comparePre\<close>.\<close>

definition compareVer :: "semver \<Rightarrow> semver \<Rightarrow> int" where
  "compareVer a b =
     (if major a \<noteq> major b then compareNat (major a) (major b)
      else if minor a \<noteq> minor b then compareNat (minor a) (minor b)
      else if patch a \<noteq> patch b then compareNat (patch a) (patch b)
      else comparePre (prerelease a) (prerelease b))"

subsection \<open>Ranges\<close>

datatype operator = Eq | Lt | Le | Gt | Ge

datatype comparator = ANY | Comparator operator semver

record Range =
  raw :: string
  comparators :: "comparator list list"

datatype xid = X | N nat

definition parseXid :: "string \<Rightarrow> xid option" where
  "parseXid s = (if s = ''x'' \<or> s = ''X'' \<or> s = ''*'' then Some X else map_option N (numericIdentifier s))"

text \<open>
  A partial version \<open>M\<close>, \<open>M.m\<close>, \<open>M.m.p\<close> or \<open>M.m.p-tag\<close> with an optional leading \<open>v\<close>;
  a missing component counts as the placeholder \<open>x\<close>.
\<close>

definition parsePartial :: "string \<Rightarrow> (xid \<times> xid \<times> xid \<times> ident list) option" where
  "parsePartial str =
     (let s = stripV str in
      case map parseXid (splitOn CHR ''.'' (takeWhile (\<lambda>c. c \<noteq> CHR ''-'') s)) of
        [Some M] \<Rightarrow> (if CHR ''-'' \<in> set s then None else Some (M, X, X, []))
      | [Some M, Some m] \<Rightarrow> (if CHR ''-'' \<in> set s then None else Some (M, m, X, []))
      | [Some M, Some m, Some p] \<Rightarrow> map_option (\<lambda>pr. (M, m, p, pr)) (parsePrerelease s)
      | _ \<Rightarrow> None)"

definition zeroPre :: "nat \<Rightarrow> nat \<Rightarrow> nat \<Rightarrow> semver" where
  "zeroPre M m p = SemVer M m p [Num 0]"

text \<open>\<open>replaceCaret\<close>: the comparators a caret range stands for.\<close>

fun replaceCaret :: "xid \<times> xid \<times> xid \<times> ident list \<Rightarrow> comparator list" where
  "replaceCaret (X, m, p, pr) = [ANY]"
| "replaceCaret (N M, X, p, pr) = [Comparator Ge (SemVer M 0 0 []), Comparator Lt (zeroPre (M + 1) 0 0)]"
| "replaceCaret (N M, N m, X, pr) =
     (if M = 0 then [Comparator Ge (SemVer M m 0 []), Comparator Lt (zeroPre M (m + 1) 0)]
      else [Comparator Ge (SemVer M m 0 []), Comparator Lt (zeroPre (M + 1) 0 0)])"
| "replaceCaret (N M, N m, N p, pr) =
     (if M = 0 then
        (if m = 0 then [Comparator Ge (SemVer M m p pr), Comparator Lt (zeroPre M m (p + 1))]
         else [Comparator Ge (SemVer M m p pr), Comparator Lt (zeroPre M (m + 1) 0)])
      else [Comparator Ge (SemVer M m p pr), Comparator Lt (zeroPre (M + 1) 0 0)])"

text \<open>The operator at the head of a comparator: \<open>((?:<|>)?=?)\<close>, and the rest.\<close>

fun parseOp :: "string \<Rightarrow> string \<times> string" where
  "parseOp (c # d # cs) =
     (if (c = CHR ''<'' \<or> c = CHR ''>'') \<and> d = CHR ''='' then ([c, d], cs)
      else if c = CHR ''<'' \<or> c = CHR ''>'' \<or> c = CHR ''='' then ([c], d # cs)
      else ([], c # d # cs))"
| "parseOp [c] = (if c = CHR ''<'' \<or> c = CHR ''>'' \<or> c = CHR ''='' then ([c], []) else ([], [c]))"
| "parseOp [] = ([], [])"

definition operatorOf :: "string \<Rightarrow> operator" where
  "operatorOf gtlt =
     (if gtlt = ''<'' then Lt else if gtlt = ''<='' then Le
      else if gtlt = ''>'' then Gt else if gtlt = ''>='' then Ge else Eq)"

text \<open>\<open>replaceXRange\<close>: the comparators an operator with a (partial) version stands for.\<close>

fun replaceXRange :: "string \<Rightarrow> xid \<times> xid \<times> xid \<times> ident list \<Rightarrow> comparator list" where
  "replaceXRange gtlt (X, m, p, pr) =
     (if gtlt = ''>'' \<or> gtlt = ''<'' then [Comparator Lt (zeroPre 0 0 0)] else [ANY])"
| "replaceXRange gtlt (N M, X, p, pr) =
     (if gtlt = ''>'' then [Comparator Ge (SemVer (M + 1) 0 0 [])]
      else if gtlt = ''<='' then [Comparator Lt (zeroPre (M + 1) 0 0)]
      else if gtlt = ''<'' then [Comparator Lt (zeroPre M 0 0)]
      else if gtlt = ''>='' then [Comparator Ge (SemVer M 0 0 [])]
      else [Comparator Ge (SemVer M 0 0 []), Comparator Lt (zeroPre (M + 1) 0 0)])"
| "replaceXRange gtlt (N M, N m, X, pr) =
     (if gtlt = ''>'' then [Comparator Ge (SemVer M (m + 1) 0 [])]
      else if gtlt = ''<='' then [Comparator Lt (zeroPre M (m + 1) 0)]
      else if gtlt = ''<'' then [Comparator Lt (zeroPre M m 0)]
      else if gtlt = ''>='' then [Comparator Ge (SemVer M m 0 [])]
      else [Comparator Ge (SemVer M m 0 []), Comparator Lt (zeroPre M (m + 1) 0)])"
| "replaceXRange gtlt (N M, N m, N p, pr) = [Comparator (operatorOf gtlt) (SemVer M m p pr)]"

text \<open>One whitespace-free comparator token: a caret range or an operator with a version.\<close>

definition parseComparator :: "string \<Rightarrow> comparator list option" where
  "parseComparator tok =
     (case tok of
        [] \<Rightarrow> Some [ANY]
      | c # cs \<Rightarrow>
          if c = CHR ''^'' then map_option replaceCaret (parsePartial cs)
          else (case parseOp tok of (gtlt, rest) \<Rightarrow> map_option (replaceXRange gtlt) (parsePartial rest)))"

text \<open>
  \<open>comparatorTrim\<close> and \<open>caretTrim\<close>: an operator or caret standing alone is joined to
  the token after it.
\<close>

definition isOperatorToken :: "string \<Rightarrow> bool" where
  "isOperatorToken t = (t \<in> set [''<'', ''>'', ''<='', ''>='', ''='', ''^''])"

fun trimOperators :: "string list \<Rightarrow> string list" where
  "trimOperators (t # u # ts) =
     (if isOperatorToken t then (t @ u) # trimOperators ts else t # trimOperators (u # ts))"
| "trimOperators ts = ts"

text \<open>\<open>parseRange\<close> of one \<open>||\<close>-alternative: the conjunction of its comparators.\<close>

definition parseComparatorSet :: "string \<Rightarrow> comparator list option" where
  "parseComparatorSet r =
     (case trimOperators (wordsOf r) of
        [] \<Rightarrow> Some [ANY]
      | ts \<Rightarrow> map_option concat (those (map parseComparator ts)))"

definition parseRange :: "string \<Rightarrow> comparator list list option" where
  "parseRange rng = those (map parseComparatorSet (splitOr rng))"

subsection \<open>Testing a version against a range\<close>

definition cmp :: "semver \<Rightarrow> operator \<Rightarrow> semver \<Rightarrow> bool" where
  "cmp a op b =
     (case op of
        Eq \<Rightarrow> compareVer a b = 0
      | Lt \<Rightarrow> compareVer a b < 0
      | Le \<Rightarrow> compareVer a b \<le> 0
      | Gt \<Rightarrow> compareVer a b > 0
      | Ge \<Rightarrow> compareVer a b \<ge> 0)"

fun comparatorTest :: "comparator \<Rightarrow> semver \<Rightarrow> bool" where
  "comparatorTest ANY version = True"
| "comparatorTest (Comparator op sv) version = cmp version op sv"

text \<open>A pre-release version needs a comparator naming a pre-release of the same tuple.\<close>

fun allowsPrerelease :: "semver \<Rightarrow> comparator \<Rightarrow> bool" where
  "allowsPrerelease version ANY = False"
| "allowsPrerelease version (Comparator op sv) =
     (prerelease sv \<noteq> [] \<and> major sv = major version \<and> minor sv = minor version
      \<and> patch sv = patch version)"

definition testSet :: "comparator list \<Rightarrow> semver \<Rightarrow> bool" where
  "testSet cs version =
     (if \<not> list_all (\<lambda>c. comparatorTest c version) cs then False
      else if prerelease version \<noteq> [] then list_ex (allowsPrerelease version) cs
      else True)"

subsection \<open>The functions the program calls\<close>

datatype error = TypeError string | RangeError string

text \<open>
  Modelled from the spec: \<open>new Semver.Range(range)\<close> of the external semver package.  It
  keeps the text it was given as \<open>raw\<close> and throws a \<open>TypeError\<close> on an unparsable range.
\<close>

definition Semver_Range :: "string \<Rightarrow> error + Range" where
  "Semver_Range rng =
     (case parseRange rng of
        None \<Rightarrow> Inl (TypeError (''Invalid SemVer Range: '' @ rng))
      | Some cs \<Rightarrow> Inr \<lparr>raw = rng, comparators = cs\<rparr>)"

text \<open>
  Modelled from the spec: \<open>range.test(version)\<close> of the external semver package; an
  invalid version fails the test, and one satisfied alternative is enough.
\<close>

definition Range_test :: "Range \<Rightarrow> string \<Rightarrow> bool" where
  "Range_test r version =
     (case parseVersion version of
        None \<Rightarrow> False
      | Some v \<Rightarrow> list_ex (\<lambda>cs. testSet cs v) (comparators r))"

text \<open>
  Modelled from the spec: \<open>Semver.satisfies(version, range)\<close> of the external semver
  package; it catches the range parser's error and answers \<open>false\<close>.
\<close>

definition Semver_satisfies :: "string \<Rightarrow> string \<Rightarrow> bool" where
  "Semver_satisfies version rng =
     (case Semver_Range rng of Inl e \<Rightarrow> False | Inr r \<Rightarrow> Range_test r version)"

text \<open>
  Modelled from the spec: \<open>Semver.major\<close> and \<open>Semver.minor\<close> of the external semver
  package; they throw on an invalid version.
\<close>

definition Semver_major :: "string \<Rightarrow> error + nat" where
  "Semver_major v =
     (case parseVersion v of
        None \<Rightarrow> Inl (TypeError (''Invalid Version: '' @ v))
      | Some sv \<Rightarrow> Inr (major sv))"

definition Semver_minor :: "string \<Rightarrow> error + nat" where
  "Semver_minor v =
     (case parseVersion v of
        None \<Rightarrow> Inl (TypeError (''Invalid Version: '' @ v))
      | Some sv \<Rightarrow> Inr (minor sv))"

text \<open>
  Modelled from the spec: the text of a range object (\<open>String(range)\<close>) of the external
  semver package: the comparators of an alternative joined by a space, the alternatives
  by \<open>||\<close>; the wildcard comparator prints as the empty string.
\<close>

fun showIdent :: "ident \<Rightarrow> string" where
  "showIdent (Num n) = showNat n"
| "showIdent (Str s) = s"

definition showVersion :: "semver \<Rightarrow> string" where
  "showVersion v =
     showNat (major v) @ ''.'' @ showNat (minor v) @ ''.'' @ showNat (patch v)
     @ (if prerelease v = [] then [] else ''-'' @ join ''.'' (map showIdent (prerelease v)))"

fun showOperator :: "operator \<Rightarrow> string" where
  "showOperator Eq = []"
| "showOperator Lt = ''<''"
| "showOperator Le = ''<=''"
| "showOperator Gt = ''>''"
| "showOperator Ge = ''>=''"

fun showComparator :: "comparator \<Rightarrow> string" where
  "showComparator ANY = []"
| "showComparator (Comparator op sv) = showOperator op @ showVersion sv"

definition Range_toString :: "Range \<Rightarrow> string" where
  "Range_toString r = join ''||'' (map (\<lambda>cs. join '' '' (map showComparator cs)) (comparators r))"

section \<open>The fast_array_intersect package\<close>

text \<open>
  Modelled from the spec: \<open>intersect(arrays)\<close> of the external fast_array_intersect
  package intersects the arrays by value equality.  The result lists, in their order
  and once each, the elements of the first shortest array that every array contains.
\<close>

fun smallestFirst :: "'a list \<Rightarrow> 'a list list \<Rightarrow> 'a list" where
  "smallestFirst a [] = a"
| "smallestFirst a (b # bs) = (if length b < length a then smallestFirst b bs else smallestFirst a bs)"

fun uniq :: "'a list \<Rightarrow> 'a list" where
  "uniq [] = []"
| "uniq (x # xs) = x # uniq (filter (\<lambda>y. y \<noteq> x) xs)"

definition intersect :: "'a list list \<Rightarrow> 'a list" where
  "intersect arrays =
     (case arrays of
        [] \<Rightarrow> []
      | a # as \<Rightarrow> uniq (filter (\<lambda>x. list_all (\<lambda>ys. x \<in> set ys) arrays) (smallestFirst a as)))"

section \<open>The program\<close>

text \<open>
  JavaScript objects keyed by engine name are association lists (\<open>Object.entries\<close>
  order); a property read is \<open>map_of\<close>, with \<open>None\<close> for \<open>undefined\<close> and \<open>null\<close>.
  A thrown exception is the \<open>Inl\<close> of the result.
\<close>

type_synonym engines = "(string \<times> string) list"

type_synonym versionsByEngine = "(string \<times> string list) list"

definition bindE :: "error + 'a \<Rightarrow> ('a \<Rightarrow> error + 'b) \<Rightarrow> error + 'b" where
  "bindE m f = (case m of Inl e \<Rightarrow> Inl e | Inr x \<Rightarrow> f x)"

text \<open>\<open>xs.map(f)\<close> for a callback that may throw: the first exception ends the map.\<close>

fun mapE :: "('a \<Rightarrow> error + 'b) \<Rightarrow> 'a list \<Rightarrow> error + 'b list" where
  "mapE f [] = Inr []"
| "mapE f (x # xs) = bindE (f x) (\<lambda>y. bindE (mapE f xs) (\<lambda>ys. Inr (y # ys)))"

definition validEngines :: "string list" where
  "validEngines = [''node'']"

subsection \<open>pGraphEntries\<close>

text \<open>An inventory record: \<open>name\<close>, \<open>package._inBundle\<close> and \<open>package.engines\<close>.\<close>

record inventoryNode =
  name :: string
  inBundle :: bool
  engines :: "engines option"

text \<open>JavaScript truthiness of a property that holds a string or is absent.\<close>

definition truthy :: "string option \<Rightarrow> bool" where
  "truthy x = (case x of None \<Rightarrow> False | Some s \<Rightarrow> s \<noteq> [])"

definition pGraphEntries :: "string list \<Rightarrow> inventoryNode list \<Rightarrow> (string \<times> engines) list" where
  "pGraphEntries selectedEngines inventory =
     (let nodesWithEngines =
            filter (\<lambda>n. \<not> inBundle n \<and>
                        (case engines n of
                           None \<Rightarrow> False
                         | Some es \<Rightarrow> list_ex (\<lambda>engine. truthy (map_of es engine)) selectedEngines))
                   inventory;
          tuples = map (\<lambda>n. (name n, engines n)) nodesWithEngines
      in List.map_filter
           (\<lambda>(nm, eo). case eo of
                None \<Rightarrow> None
              | Some es \<Rightarrow>
                  if list_ex (\<lambda>engine. map_of es engine \<noteq> Some ''*'') selectedEngines
                  then Some (nm, es) else None)
           tuples)"

subsection \<open>caret, dropPatch\<close>

text \<open>\<open>`^${ver.replace(/^v/g, '')}`\<close>\<close>

definition caret :: "string \<Rightarrow> string" where
  "caret ver = ''^'' @ stripV ver"

text \<open>\<open>`^${Semver.major(num)}.${Semver.minor(num)}`\<close> with \<open>num = v.replace(/^v/, '')\<close>.\<close>

definition dropPatch :: "string \<Rightarrow> error + string" where
  "dropPatch v =
     (let num = stripV v in
      bindE (Semver_major num) (\<lambda>M.
      bindE (Semver_minor num) (\<lambda>m.
      Inr (''^'' @ showNat M @ ''.'' @ showNat m))))"

subsection \<open>validVersionsForEngines\<close>

text \<open>\<open>engines[engine] || '*'\<close>\<close>

definition orStar :: "string option \<Rightarrow> string" where
  "orStar x = (case x of None \<Rightarrow> ''*'' | Some s \<Rightarrow> if s = [] then ''*'' else s)"

definition validVersionsForEngines ::
  "versionsByEngine \<Rightarrow> (string \<Rightarrow> string option) \<Rightarrow> versionsByEngine" where
  "validVersionsForEngines allVersions enginesOf =
     map (\<lambda>(engine, versions).
            (engine, filter (\<lambda>v. Semver_satisfies v (orStar (enginesOf engine))) versions))
         allVersions"

subsection \<open>getGraphValids\<close>

text \<open>
  A property that holds a plain object or a Promise of one.  \<open>getGraphValids\<close> is an
  async function; for an empty list it returns \<open>valids: validVersionsForEngines(...)\<close>,
  the result of an async function that is not awaited there: a Promise.  Awaiting
  \<open>getGraphValids\<close> gives the returned object and leaves the Promise in its property as
  it is.  \<open>Object.entries\<close> of a Promise is the empty array (a Promise has no own
  enumerable properties); \<open>awaited\<close> is the value the property stands for once awaited.
\<close>

datatype 'a awaitable = Plain 'a | Promise 'a

fun awaited :: "'a awaitable \<Rightarrow> 'a" where
  "awaited (Plain x) = x"
| "awaited (Promise x) = x"

fun Object_entries :: "('k \<times> 'v) list awaitable \<Rightarrow> ('k \<times> 'v) list" where
  "Object_entries (Plain obj) = obj"
| "Object_entries (Promise obj) = []"

record graphValids =
  allowed :: "(string \<times> engines \<times> versionsByEngine) list"
  valids :: "versionsByEngine awaitable"

text \<open>
  \<open>mergedEngines[engine].push(versions)\<close>, after creating the array when the key is new.
\<close>

definition pushVersions ::
  "(string \<times> string list list) list \<Rightarrow> string \<Rightarrow> string list \<Rightarrow> (string \<times> string list list) list" where
  "pushVersions mergedEngines engine versions =
     (case map_of mergedEngines engine of
        None \<Rightarrow> mergedEngines @ [(engine, [versions])]
      | Some _ \<Rightarrow> map (\<lambda>(e, arrays). if e = engine then (e, arrays @ [versions]) else (e, arrays))
                     mergedEngines)"

text \<open>
  \<open>intersection.sort((a, b) => -Semver.compare(a, b))\<close>: a stable sort; the comparator
  throws on an invalid version, and is called as soon as there are two elements.
\<close>

fun insertDesc :: "string \<times> semver \<Rightarrow> (string \<times> semver) list \<Rightarrow> (string \<times> semver) list" where
  "insertDesc x [] = [x]"
| "insertDesc x (y # ys) =
     (if - compareVer (snd x) (snd y) \<le> 0 then x # y # ys else y # insertDesc x ys)"

definition sortDescending :: "string list \<Rightarrow> error + string list" where
  "sortDescending xs =
     (if length xs \<le> 1 then Inr xs
      else case those (map parseVersion xs) of
             None \<Rightarrow> Inl (TypeError ''Invalid Version'')
           | Some vs \<Rightarrow> Inr (map fst (foldr insertDesc (zip xs vs) [])))"

definition getGraphValids :: "versionsByEngine \<Rightarrow> (string \<times> engines) list \<Rightarrow> error + graphValids" where
  "getGraphValids allVersions graphEntries =
     (if graphEntries = [] then
        Inr \<lparr>allowed = [],
             valids = Promise (validVersionsForEngines allVersions
                                 (map_of (map (\<lambda>engine. (engine, ''*'')) validEngines)))\<rparr>
      else
        let graphAllowed =
              map (\<lambda>(nm, es). (nm, es, validVersionsForEngines allVersions (map_of es))) graphEntries;
            mergedGraphEngines =
              foldl (\<lambda>mergedEngines (nm, es, byEngine).
                       foldl (\<lambda>m (engine, versions). pushVersions m engine versions)
                             mergedEngines byEngine)
                    [] graphAllowed
        in bindE (mapE (\<lambda>(engine, versionArrays).
                          bindE (sortDescending (intersect versionArrays))
                                (\<lambda>sorted. Inr (engine, sorted)))
                       mergedGraphEngines)
                 (\<lambda>vs. Inr \<lparr>allowed = graphAllowed, valids = Plain vs\<rparr>))"

subsection \<open>pRootRanges\<close>

text \<open>\<open>data.replace(/[=](?<digits>\d)/, '= $<digits>')\<close>: the first match only.\<close>

fun replaceEqualsDigit :: "string \<Rightarrow> string" where
  "replaceEqualsDigit (c # d # cs) =
     (if c = CHR ''='' \<and> isDigit d then c # CHR '' '' # d # cs
      else c # replaceEqualsDigit (d # cs))"
| "replaceEqualsDigit cs = cs"

record rootRanges =
  root_engines :: "(string \<times> string option) list"
  root_ranges :: "(string \<times> Range) list"
  root_valids :: versionsByEngine

definition pRootRanges :: "versionsByEngine \<Rightarrow> engines option \<Rightarrow> error + rootRanges" where
  "pRootRanges allVersions pkgEngines =
     (let engineEntries =
            map (\<lambda>(engine, data). (engine, map_option replaceEqualsDigit data))
                (map (\<lambda>engine.
                        (engine,
                         case pkgEngines of
                           None \<Rightarrow> None
                         | Some es \<Rightarrow> if truthy (map_of es engine) then map_of es engine else None))
                     validEngines)
      in bindE (mapE (\<lambda>(engine, v). bindE (Semver_Range (orStar v)) (\<lambda>r. Inr (engine, r)))
                     engineEntries)
               (\<lambda>rangeEntries.
                  Inr \<lparr>root_engines = engineEntries,
                       root_ranges = rangeEntries,
                       root_valids =
                         validVersionsForEngines allVersions
                           (\<lambda>engine. Option.bind (map_of engineEntries engine) id)\<rparr>))"

subsection \<open>pGraphRanges\<close>

text \<open>\<open>lastMajor.replace(/^\^/, '')\<close>\<close>

definition stripCaret :: "string \<Rightarrow> string" where
  "stripCaret s = (case s of c # cs \<Rightarrow> if c = CHR ''^'' then cs else s | [] \<Rightarrow> s)"

text \<open>
  \<open>raw.replace(/(?:\.0)+(?<spacing> |$)/g, '$<spacing>')\<close>: a run of \<open>.0\<close> that ends
  at a space or at the end of the string is removed.
\<close>

fun zeroRun :: "string \<Rightarrow> bool" where
  "zeroRun (c # d # cs) =
     (c = CHR ''.'' \<and> d = CHR ''0'' \<and>
      (case cs of [] \<Rightarrow> True | e # es \<Rightarrow> e = CHR '' '' \<or> zeroRun (e # es)))"
| "zeroRun cs = False"

fun stripZeros :: "string \<Rightarrow> string" where
  "stripZeros (c # d # cs) =
     (if zeroRun (c # d # cs) then stripZeros cs else c # stripZeros (d # cs))"
| "stripZeros cs = cs"

record graphRange =
  displayRange :: string
  validRange :: Range

text \<open>The step of the \<open>reduceRight\<close> that collects the anchor of each caret window.\<close>

definition anchorStep :: "string list \<Rightarrow> string \<Rightarrow> string list" where
  "anchorStep prev v =
     (if prev = [] then [v]
      else if Semver_satisfies v (caret (last prev)) then prev else prev @ [v])"

text \<open>
  The callback of \<open>Object.entries(graphValids).map\<close>, for one engine, in three steps:
  \<open>validMajorRanges\<close>, the candidate \<open>validRange\<close>, and the check with the display
  string.  (\<open>.split(' ').join(' ')\<close> leaves the display string as it is.)
\<close>

definition validMajorRangesOf :: "(string \<times> engines) list \<Rightarrow> string list \<Rightarrow> error + string list" where
  "validMajorRangesOf graphEntries versions =
     (if graphEntries \<noteq> [] \<and> versions \<noteq> []
      then bindE (mapE dropPatch (foldr (\<lambda>v prev. anchorStep prev v) versions []))
                 (\<lambda>ranges. Inr (rev ranges))
      else Inr [''*''])"

definition candidateRange :: "(string \<times> engines) list \<Rightarrow> string list \<Rightarrow> error + Range" where
  "candidateRange graphEntries versions =
     bindE (validMajorRangesOf graphEntries versions)
       (\<lambda>validMajorRanges.
          if validMajorRanges = [] then Inl (TypeError ''lastMajor is undefined'')
          else
            let lastMajor = last validMajorRanges;
                greaterThanLowest =
                  (if lastMajor = ''*'' then lastMajor else ''>= '' @ stripCaret lastMajor)
            in if list_all (\<lambda>v. Semver_satisfies v greaterThanLowest) versions
               then Semver_Range greaterThanLowest
               else Semver_Range (join '' || '' validMajorRanges))"

definition reportMessage :: "string \<Rightarrow> string list \<Rightarrow> Range \<Rightarrow> string" where
  "reportMessage engine versions r =
     ''please report this: '' @ engine @ '': '' @ join '','' versions @ '' / ''
     @ Range_toString r"

definition graphRangeOf :: "(string \<times> engines) list \<Rightarrow> string \<Rightarrow> string list \<Rightarrow> error + graphRange" where
  "graphRangeOf graphEntries engine versions =
     bindE (candidateRange graphEntries versions)
       (\<lambda>validRange.
          if \<not> list_all (\<lambda>v. Range_test validRange v) versions
          then Inl (RangeError (reportMessage engine versions validRange))
          else Inr \<lparr>displayRange =
                      (if raw validRange = [] then raw validRange
                       else stripZeros (raw validRange)),
                    validRange = validRange\<rparr>)"

record graphRanges =
  graph_allowed :: "(string \<times> engines \<times> versionsByEngine) list"
  graph_engines :: engines
  graph_ranges :: "(string \<times> graphRange) list"
  graph_valids :: "(string \<times> string list option) list"

definition pGraphRanges :: "versionsByEngine \<Rightarrow> (string \<times> engines) list \<Rightarrow> error + graphRanges" where
  "pGraphRanges allVersions graphEntries =
     bindE (getGraphValids allVersions graphEntries)
       (\<lambda>gv.
          bindE (mapE (\<lambda>(engine, versions).
                         bindE (graphRangeOf graphEntries engine versions)
                               (\<lambda>r. Inr (engine, r)))
                      (Object_entries (valids gv)))
            (\<lambda>ranges.
               let engineEntries = map (\<lambda>(engine, r). (engine, displayRange r)) ranges
               in Inr \<lparr>graph_allowed = allowed gv,
                       graph_engines = engineEntries,
                       graph_ranges = ranges,
                       graph_valids =
                         map (\<lambda>engine.
                                (engine,
                                 map_of (validVersionsForEngines allVersions (map_of engineEntries))
                                        engine))
                             validEngines\<rparr>))"

section \<open>The vocabulary of the specification\<close>

text \<open>
  The specification's ConstraintFilter: the ordered subset of the catalog whose entries
  satisfy the range.
\<close>

definition ConstraintFilter :: "string list \<Rightarrow> string \<Rightarrow> string list" where
  "ConstraintFilter catalog rng = filter (\<lambda>v. Semver_satisfies v rng) catalog"

text \<open>The range a graph entry declares for an engine (\<open>engines[engine] || '*'\<close>).\<close>

definition declaredRange :: "string \<Rightarrow> engines \<Rightarrow> string" where
  "declaredRange engine es = orStar (map_of es engine)"

text \<open>A released version: a valid version token without a pre-release tag.\<close>

definition releaseVersion :: "string \<Rightarrow> bool" where
  "releaseVersion v = (case parseVersion v of None \<Rightarrow> False | Some sv \<Rightarrow> prerelease sv = [])"

text \<open>Descending by semantic-version precedence: no element is below a later one.\<close>

definition precedes :: "string \<Rightarrow> string \<Rightarrow> bool" where
  "precedes a b =
     (case (parseVersion a, parseVersion b) of
        (Some x, Some y) \<Rightarrow> 0 \<le> compareVer x y
      | _ \<Rightarrow> False)"

definition descending :: "string list \<Rightarrow> bool" where
  "descending vs = sorted_wrt precedes vs"

text \<open>
  The floor of a valid set: \<open>major.minor.0\<close> of its lowest member, which is the last one
  of a set sorted descending.  It is the version the threshold \<open>>= major.minor\<close> of the
  synthesizer starts at (\<open>dropPatch\<close> of the lowest anchor).
\<close>

definition floorOf :: "string list \<Rightarrow> semver option" where
  "floorOf V =
     (if V = [] then None
      else map_option (\<lambda>lo. SemVer (major lo) (minor lo) 0 []) (parseVersion (last V)))"

text \<open>A version token at or above a version, by semantic-version precedence.\<close>

definition atOrAbove :: "semver \<Rightarrow> string \<Rightarrow> bool" where
  "atOrAbove fl v = (case parseVersion v of None \<Rightarrow> False | Some sv \<Rightarrow> 0 \<le> compareVer sv fl)"

text \<open>
  A valid set without holes: it is not empty and it contains every catalog version at or
  above its floor (the specification's "the accepted set is exactly everything at or
  above the floor").
\<close>

definition withoutHoles :: "string list \<Rightarrow> string list \<Rightarrow> bool" where
  "withoutHoles catalog V =
     (case floorOf V of
        None \<Rightarrow> False
      | Some fl \<Rightarrow> list_all (\<lambda>v. atOrAbove fl v \<longrightarrow> v \<in> set V) catalog)"

text \<open>
  The specification's ConstraintExtractor condition, in its words: the package is not
  bundled, declares a non-empty mapping for at least one selected engine, and at least
  one of those declared ranges is not the universal wildcard.
\<close>

definition declares :: "inventoryNode \<Rightarrow> string \<Rightarrow> string option" where
  "declares n engine =
     (case engines n of
        None \<Rightarrow> None
      | Some es \<Rightarrow> (case map_of es engine of
                     None \<Rightarrow> None
                   | Some r \<Rightarrow> if r = [] then None else Some r))"

definition contributes :: "string list \<Rightarrow> inventoryNode \<Rightarrow> bool" where
  "contributes selectedEngines n =
     (\<not> inBundle n
      \<and> list_ex (\<lambda>engine. declares n engine \<noteq> None) selectedEngines
      \<and> list_ex (\<lambda>engine. declares n engine \<noteq> None \<and> declares n engine \<noteq> Some ''*'')
                 selectedEngines)"

section \<open>Example inputs\<close>

text \<open>The catalog of the specification's threshold example: 1.0.0 to 1.9.0, 2.0.0 to 2.3.0, 3.0.0.\<close>

definition thresholdCatalog :: "string list" where
  "thresholdCatalog =
     [''1.0.0'', ''1.1.0'', ''1.2.0'', ''1.3.0'', ''1.4.0'', ''1.5.0'', ''1.6.0'', ''1.7.0'',
      ''1.8.0'', ''1.9.0'', ''2.0.0'', ''2.1.0'', ''2.2.0'', ''2.3.0'', ''3.0.0'']"

text \<open>A catalog with majors 1, 2 and 3, and a package that accepts majors 1 (from 1.5) and 3.\<close>

definition majorsCatalog :: "string list" where
  "majorsCatalog = [''1.0.0'', ''1.5.0'', ''1.9.0'', ''2.0.0'', ''2.3.0'', ''3.0.0'', ''3.2.0'']"

definition disjointEntries :: "(string \<times> engines) list" where
  "disjointEntries = [(''pkg'', [(''node'', ''^1.5 || ^3.0'')])]"

text \<open>A catalog and a package that leaves out one version inside a major line.\<close>

definition holeCatalog :: "string list" where
  "holeCatalog = [''1.0.0'', ''1.5.0'', ''1.7.0'', ''1.9.0'']"

definition holeEntries :: "(string \<times> engines) list" where
  "holeEntries = [(''pkg'', [(''node'', ''1.5.0 || 1.9.0'')])]"

text \<open>A catalog with a release candidate, and a package that accepts it.\<close>

definition candidateCatalog :: "string list" where
  "candidateCatalog = [''1.5.0-rc.1'', ''1.5.0'']"

definition candidateEntries :: "(string \<times> engines) list" where
  "candidateEntries = [(''pkg'', [(''node'', ''>=1.5.0-rc.0'')])]"

text \<open>The package of the threshold example: everything from 2.0.0 upward.\<close>

definition thresholdEntries :: "(string \<times> engines) list" where
  "thresholdEntries = [(''pkg'', [(''node'', ''>=2.0.0'')])]"

text \<open>A catalog with one version per major, and a package that skips major 2.\<close>

definition gapCatalog :: "string list" where
  "gapCatalog = [''1.5.0'', ''2.0.0'', ''3.0.0'']"

definition gapEntries :: "(string \<times> engines) list" where
  "gapEntries = [(''pkg'', [(''node'', ''^1.5 || ^3.0'')])]"

text \<open>A catalog with several majors of the engine, for the root manifest's range.\<close>

definition rootCatalog :: "string list" where
  "rootCatalog = [''12.22.0'', ''14.0.0'', ''14.17.3'', ''16.4.0'']"

text \<open>A package with an unparsable range beside a package with a threshold.\<close>

definition malformedEntries :: "(string \<times> engines) list" where
  "malformedEntries = [(''bad'', [(''node'', ''not a range'')]), (''good'', [(''node'', ''>= 2'')])]"

text \<open>Two packages with no version in common.\<close>

definition clashEntries :: "(string \<times> engines) list" where
  "clashEntries = [(''a'', [(''node'', ''^1.0'')]), (''b'', [(''node'', ''^3.0'')])]"

text \<open>An inventory of a bundled package, a wildcard package and a package without engines.\<close>

definition silentInventory :: "inventoryNode list" where
  "silentInventory =
     [\<lparr>name = ''bundled'', inBundle = True, engines = Some [(''node'', ''>= 14'')]\<rparr>,
      \<lparr>name = ''any'', inBundle = False, engines = Some [(''node'', ''*'')]\<rparr>,
      \<lparr>name = ''plain'', inBundle = False, engines = None\<rparr>]"

text \<open>Two packages constraining the same engine.\<close>

definition twoEntries :: "(string \<times> engines) list" where
  "twoEntries = [(''a'', [(''node'', ''>=1.5'')]), (''b'', [(''node'', ''^1.0 || ^3.0'')])]"

section \<open>Precedence is a total preorder\<close>

lemma strLess_irrefl: "\<not> strLess a a"
  by (induction a) auto

lemma strLess_total: "a \<noteq> b \<Longrightarrow> \<not> strLess a b \<Longrightarrow> strLess b a"
  by (induction a b rule: strLess.induct) auto

lemma strLess_asym: "strLess a b \<Longrightarrow> \<not> strLess b a"
  by (induction a b rule: strLess.induct) auto

lemma strLess_trans: "strLess a b \<Longrightarrow> strLess b c \<Longrightarrow> strLess a c"
proof (induction a b arbitrary: c rule: strLess.induct)
  case (2 y ys)
  then show ?case by (cases c) auto
next
  case (4 x xs y ys)
  then show ?case by (cases c) auto
qed auto

lemma compareIdentifiers_zero: "compareIdentifiers a b = 0 \<longleftrightarrow> a = b"
  by (cases a; cases b) (auto simp: compareNat_def)

lemma compareIdentifiers_neg: "compareIdentifiers a b < 0 \<Longrightarrow> compareIdentifiers b a > 0"
  by (cases a; cases b) (auto simp: compareNat_def strLess_asym split: if_splits)

lemma compareIdentifiers_trans:
  "compareIdentifiers a b > 0 \<Longrightarrow> compareIdentifiers b c > 0 \<Longrightarrow> compareIdentifiers a c > 0"
  apply (cases a; cases b; cases c)
  apply (auto simp: compareNat_def strLess_irrefl split: if_splits dest: strLess_total strLess_trans strLess_asym)
  done

lemma comparePreLoop_neg: "comparePreLoop a b < 0 \<Longrightarrow> comparePreLoop b a > 0"
  by (induction a b rule: comparePreLoop.induct) (auto simp: compareIdentifiers_neg)

lemma comparePreLoop_zero: "comparePreLoop a b = 0 \<longleftrightarrow> a = b"
  by (induction a b rule: comparePreLoop.induct) (auto simp: compareIdentifiers_zero)

lemma comparePreLoop_trans:
  "comparePreLoop a b \<ge> 0 \<Longrightarrow> comparePreLoop b c \<ge> 0 \<Longrightarrow> comparePreLoop a c \<ge> 0"
proof (induction a b arbitrary: c rule: comparePreLoop.induct)
  case 1
  then show ?case by simp
next
  case (2 a as)
  then show ?case by (cases c) auto
next
  case (3 b bs)
  then show ?case by simp
next
  case (4 a as b bs)
  show ?case
  proof (cases c)
    case Nil
    then show ?thesis by simp
  next
    case (Cons x xs)
    show ?thesis
    proof (cases "a = b")
      case True
      with 4 Cons show ?thesis by (auto split: if_splits)
    next
      case ab: False
      show ?thesis
      proof (cases "b = x")
        case True
        with 4 Cons ab show ?thesis by (auto split: if_splits)
      next
        case bx: False
        from 4 ab have 1: "compareIdentifiers a b > 0"
          using compareIdentifiers_zero[of a b] by auto
        from 4 Cons bx have 2: "compareIdentifiers b x > 0"
          using compareIdentifiers_zero[of b x] by auto
        from compareIdentifiers_trans[OF 1 2] have 3: "compareIdentifiers a x > 0" .
        then have "a \<noteq> x" using compareIdentifiers_zero[of a x] by auto
        with 3 Cons show ?thesis by simp
      qed
    qed
  qed
qed

lemma comparePre_neg: "comparePre a b < 0 \<Longrightarrow> comparePre b a > 0"
  using comparePreLoop_neg[of a b]
  by (cases a; cases b) (auto simp: comparePre_def split: if_splits)

lemma comparePre_trans:
  "comparePre a b \<ge> 0 \<Longrightarrow> comparePre b c \<ge> 0 \<Longrightarrow> comparePre a c \<ge> 0"
  using comparePreLoop_trans[of a b c]
  by (cases a; cases b; cases c) (auto simp: comparePre_def split: if_splits)

lemma compareVer_neg: "compareVer a b < 0 \<Longrightarrow> compareVer b a \<ge> 0"
  using comparePre_neg[of "prerelease a" "prerelease b"]
  by (auto simp: compareVer_def compareNat_def split: if_splits)

lemma compareVer_trans:
  "compareVer a b \<ge> 0 \<Longrightarrow> compareVer b c \<ge> 0 \<Longrightarrow> compareVer a c \<ge> 0"
  using comparePre_trans[of "prerelease a" "prerelease b" "prerelease c"]
  by (auto simp: compareVer_def compareNat_def split: if_splits)

section \<open>Sorting by precedence\<close>

lemma set_insertDesc: "set (insertDesc x ys) = insert x (set ys)"
  by (induction ys) auto

lemma set_foldr_insertDesc: "set (foldr insertDesc xs []) = set xs"
  by (induction xs) (auto simp: set_insertDesc)

lemma sorted_insertDesc:
  "sorted_wrt (\<lambda>a b. 0 \<le> compareVer (snd a) (snd b)) ys \<Longrightarrow>
   sorted_wrt (\<lambda>a b. 0 \<le> compareVer (snd a) (snd b)) (insertDesc x ys)"
proof (induction ys)
  case Nil
  then show ?case by simp
next
  case (Cons y ys)
  show ?case
  proof (cases "0 \<le> compareVer (snd x) (snd y)")
    case True
    then have "\<forall>z\<in>set ys. 0 \<le> compareVer (snd x) (snd z)"
      using Cons.prems compareVer_trans by auto
    with True Cons.prems show ?thesis by auto
  next
    case False
    then have "0 \<le> compareVer (snd y) (snd x)"
      using compareVer_neg[of "snd x" "snd y"] by simp
    with False Cons show ?thesis by (auto simp: set_insertDesc)
  qed
qed

lemma sorted_foldr_insertDesc:
  "sorted_wrt (\<lambda>a b. 0 \<le> compareVer (snd a) (snd b)) (foldr insertDesc xs [])"
  by (induction xs) (auto simp: sorted_insertDesc)

lemma those_map_Some:
  "list_all (\<lambda>x. f x \<noteq> None) xs \<Longrightarrow> those (map f xs) = Some (map (\<lambda>x. the (f x)) xs)"
  by (induction xs) auto

lemma sortDescending_valid:
  assumes "list_all (\<lambda>v. parseVersion v \<noteq> None) xs"
  shows "\<exists>ys. sortDescending xs = Inr ys \<and> set ys = set xs \<and> descending ys"
proof (cases "length xs \<le> 1")
  case True
  then have "xs = [] \<or> (\<exists>x. xs = [x])" by (cases xs) auto
  then show ?thesis using True by (auto simp: sortDescending_def descending_def)
next
  case False
  let ?ps = "map (\<lambda>x. (x, the (parseVersion x))) xs"
  let ?ss = "foldr insertDesc ?ps []"
  have ps: "zip xs (map (\<lambda>x. the (parseVersion x)) xs) = ?ps"
    by (induction xs) auto
  have eq: "sortDescending xs = Inr (map fst ?ss)"
    using False those_map_Some[OF assms] by (simp add: sortDescending_def ps)
  have set_ss: "set ?ss = set ?ps" by (rule set_foldr_insertDesc)
  have s1: "set (map fst ?ss) = set xs"
    by (simp add: set_ss image_image)
  have inv: "\<forall>p\<in>set ?ss. parseVersion (fst p) = Some (snd p)"
    using assms by (auto simp: set_ss list_all_iff)
  have "sorted_wrt (\<lambda>a b. 0 \<le> compareVer (snd a) (snd b)) ?ss"
    by (rule sorted_foldr_insertDesc)
  then have "sorted_wrt (\<lambda>a b. precedes (fst a) (fst b)) ?ss"
    by (rule sorted_wrt_mono_rel[rotated]) (use inv in \<open>auto simp: precedes_def\<close>)
  then have "descending (map fst ?ss)"
    by (simp add: descending_def sorted_wrt_map)
  with eq s1 show ?thesis by blast
qed

section \<open>Intersection and merging\<close>

lemma smallestFirst_mem: "smallestFirst a as \<in> set (a # as)"
  by (induction as arbitrary: a) (auto split: if_splits)

lemma set_uniq: "set (uniq xs) = set xs"
proof (induction xs rule: uniq.induct)
  case 1
  then show ?case by simp
next
  case (2 x xs)
  then show ?case by auto
qed

lemma distinct_uniq: "distinct (uniq xs)"
  by (induction xs rule: uniq.induct) (auto simp: set_uniq)

lemma set_intersect:
  "arrays \<noteq> [] \<Longrightarrow> set (intersect arrays) = {x. \<forall>ys\<in>set arrays. x \<in> set ys}"
proof (cases arrays)
  case Nil
  then show "arrays \<noteq> [] \<Longrightarrow> ?thesis" by simp
next
  case (Cons a as)
  have "smallestFirst a as \<in> set arrays" using smallestFirst_mem[of a as] Cons by simp
  then show ?thesis
    by (auto simp: intersect_def Cons set_uniq list_all_iff)
qed

lemma validVersionsForEngines_single:
  "validVersionsForEngines [(engine, catalog)] enginesOf =
     [(engine, ConstraintFilter catalog (orStar (enginesOf engine)))]"
  by (simp add: validVersionsForEngines_def ConstraintFilter_def)

lemma pushVersions_single:
  "pushVersions [(engine, arrays)] engine versions = [(engine, arrays @ [versions])]"
  by (simp add: pushVersions_def)

lemma merge_single_acc:
  "foldl (\<lambda>mergedEngines (nm, es, byEngine).
            foldl (\<lambda>m (engine, versions). pushVersions m engine versions) mergedEngines byEngine)
         [(engine, acc)]
         (map (\<lambda>(nm, es). (nm, es, [(engine, f es)])) L)
   = [(engine, acc @ map (\<lambda>(nm, es). f es) L)]"
  by (induction L arbitrary: acc) (auto simp: pushVersions_def)

lemma merge_single:
  "L \<noteq> [] \<Longrightarrow>
   foldl (\<lambda>mergedEngines (nm, es, byEngine).
            foldl (\<lambda>m (engine, versions). pushVersions m engine versions) mergedEngines byEngine)
         []
         (map (\<lambda>(nm, es). (nm, es, [(engine, f es)])) L)
   = [(engine, map (\<lambda>(nm, es). f es) L)]"
proof (cases L)
  case Nil
  then show "L \<noteq> [] \<Longrightarrow> ?thesis" by simp
next
  case (Cons x xs)
  obtain nm es where x: "x = (nm, es)" by (cases x)
  show ?thesis
    using merge_single_acc[of engine "[f es]" f xs]
    by (simp add: Cons x pushVersions_def)
qed

section \<open>Facts about filtering and the graph resolver\<close>

lemma parseRange_star: "parseRange ''*'' = Some [[ANY]]"
  by code_simp

lemma Semver_Range_star: "Semver_Range ''*'' = Inr \<lparr>raw = ''*'', comparators = [[ANY]]\<rparr>"
  by (simp add: Semver_Range_def parseRange_star)

lemma Range_test_star: "Range_test \<lparr>raw = ''*'', comparators = [[ANY]]\<rparr> v = releaseVersion v"
  by (auto simp: Range_test_def releaseVersion_def testSet_def split: option.splits)

lemma satisfies_star: "Semver_satisfies v ''*'' = releaseVersion v"
  by (simp add: Semver_satisfies_def Semver_Range_star Range_test_star)

lemma satisfies_valid: "Semver_satisfies v r \<Longrightarrow> parseVersion v \<noteq> None"
  by (auto simp: Semver_satisfies_def Range_test_def split: sum.splits option.splits)

lemma satisfies_unparsable: "parseRange r = None \<Longrightarrow> \<not> Semver_satisfies v r"
  by (simp add: Semver_satisfies_def Semver_Range_def)

lemma ConstraintFilter_star: "list_all releaseVersion catalog \<Longrightarrow> ConstraintFilter catalog ''*'' = catalog"
  by (induction catalog) (auto simp: ConstraintFilter_def satisfies_star)

lemma getGraphValids_empty:
  "getGraphValids [(''node'', catalog)] [] =
     Inr \<lparr>allowed = [], valids = Promise [(''node'', ConstraintFilter catalog ''*'')]\<rparr>"
  by (simp add: getGraphValids_def validVersionsForEngines_single validEngines_def orStar_def)

lemma getGraphValids_nonempty:
  assumes "L \<noteq> []"
  shows "getGraphValids [(engine, catalog)] L =
     bindE (sortDescending (intersect (map (\<lambda>(nm, es). ConstraintFilter catalog (declaredRange engine es)) L)))
       (\<lambda>sorted. Inr \<lparr>allowed = map (\<lambda>(nm, es). (nm, es, [(engine, ConstraintFilter catalog (declaredRange engine es))])) L,
                       valids = Plain [(engine, sorted)]\<rparr>)"
proof -
  have m: "map (\<lambda>(nm, es). (nm, es, validVersionsForEngines [(engine, catalog)] (map_of es))) L
      = map (\<lambda>(nm, es). (nm, es, [(engine, ConstraintFilter catalog (declaredRange engine es))])) L"
    by (simp add: validVersionsForEngines_single declaredRange_def)
  show ?thesis
    using assms
    by (simp add: getGraphValids_def m merge_single[OF assms] Let_def bindE_def split: sum.splits)
qed

lemma ConstraintFilter_valid: "v \<in> set (ConstraintFilter catalog r) \<Longrightarrow> parseVersion v \<noteq> None"
  using satisfies_valid[of v r] by (simp add: ConstraintFilter_def)

lemma ConstraintFilter_subset: "set (ConstraintFilter catalog r) \<subseteq> set catalog"
  by (auto simp: ConstraintFilter_def)

lemma graph_intersection:
  assumes "L \<noteq> []"
  shows "\<exists>V. getGraphValids [(engine, catalog)] L =
               Inr \<lparr>allowed = map (\<lambda>(nm, es). (nm, es, [(engine, ConstraintFilter catalog (declaredRange engine es))])) L,
                    valids = Plain [(engine, V)]\<rparr>
             \<and> set V = {v \<in> set catalog. \<forall>(nm, es)\<in>set L. v \<in> set (ConstraintFilter catalog (declaredRange engine es))}
             \<and> descending V"
proof -
  let ?arrays = "map (\<lambda>(nm, es). ConstraintFilter catalog (declaredRange engine es)) L"
  have ne: "?arrays \<noteq> []" using assms by simp
  have si: "set (intersect ?arrays) = {x. \<forall>ys\<in>set ?arrays. x \<in> set ys}"
    by (rule set_intersect[OF ne])
  obtain nm0 es0 where h: "(nm0, es0) \<in> set L" using assms by (cases L) auto
  have sub: "set (intersect ?arrays) \<subseteq> set (ConstraintFilter catalog (declaredRange engine es0))"
    unfolding si using h by force
  have "list_all (\<lambda>v. parseVersion v \<noteq> None) (intersect ?arrays)"
    unfolding list_all_iff using sub ConstraintFilter_valid by blast
  from sortDescending_valid[OF this] obtain V
    where V: "sortDescending (intersect ?arrays) = Inr V" "set V = set (intersect ?arrays)" "descending V"
    by blast
  have "set V = {v \<in> set catalog. \<forall>(nm, es)\<in>set L. v \<in> set (ConstraintFilter catalog (declaredRange engine es))}"
  proof (intro set_eqI iffI)
    fix v assume "v \<in> set V"
    then have a: "\<forall>ys\<in>set ?arrays. v \<in> set ys" using V(2) si by simp
    then have "v \<in> set (ConstraintFilter catalog (declaredRange engine es0))" using h by force
    then have "v \<in> set catalog" using ConstraintFilter_subset by blast
    with a show "v \<in> {v \<in> set catalog. \<forall>(nm, es)\<in>set L. v \<in> set (ConstraintFilter catalog (declaredRange engine es))}"
      by force
  next
    fix v assume "v \<in> {v \<in> set catalog. \<forall>(nm, es)\<in>set L. v \<in> set (ConstraintFilter catalog (declaredRange engine es))}"
    then have "\<forall>ys\<in>set ?arrays. v \<in> set ys" by force
    then show "v \<in> set V" using V(2) si by simp
  qed
  with V show ?thesis
    by (simp add: getGraphValids_nonempty[OF assms] bindE_def)
qed

lemma replaceEqualsDigit_none: "CHR ''='' \<notin> set s \<Longrightarrow> replaceEqualsDigit s = s"
  by (induction s rule: replaceEqualsDigit.induct) auto

lemma isDigit_not_equals: "isDigit c \<Longrightarrow> c \<noteq> CHR ''=''"
  by (auto simp: isDigit_def)

lemma replaceEqualsDigit_joined:
  "n \<noteq> [] \<Longrightarrow> list_all isDigit n \<Longrightarrow> replaceEqualsDigit (''='' @ n) = ''= '' @ n"
  by (cases n) auto

lemma replaceEqualsDigit_spaced:
  "list_all isDigit n \<Longrightarrow> replaceEqualsDigit (''= '' @ n) = ''= '' @ n"
proof -
  assume d: "list_all isDigit n"
  then have "CHR ''='' \<notin> set (CHR '' '' # n)"
    using isDigit_not_equals by (auto simp: list_all_iff)
  then have "replaceEqualsDigit (CHR '' '' # n) = CHR '' '' # n"
    by (rule replaceEqualsDigit_none)
  then show ?thesis by (simp add: isDigit_def)
qed

lemma pRootRanges_declared:
  assumes "map_of es ''node'' = Some r" "r \<noteq> []"
  shows "pRootRanges allVersions (Some es) =
     bindE (Semver_Range (replaceEqualsDigit r))
       (\<lambda>rg. Inr \<lparr>root_engines = [(''node'', Some (replaceEqualsDigit r))],
                   root_ranges = [(''node'', rg)],
                   root_valids = validVersionsForEngines allVersions
                      (\<lambda>engine. if engine = ''node'' then Some (replaceEqualsDigit r) else None)\<rparr>)"
proof -
  have ne: "replaceEqualsDigit r \<noteq> []" using assms(2)
    by (cases r rule: replaceEqualsDigit.cases) auto
  have f: "(\<lambda>engine. Option.bind (if engine = ''node'' then Some (Some (replaceEqualsDigit r)) else None) id)
      = (\<lambda>engine. if engine = ''node'' then Some (replaceEqualsDigit r) else None)"
    by (rule ext) simp
  show ?thesis
    using assms ne
    by (simp add: pRootRanges_def validEngines_def truthy_def orStar_def bindE_def f split: sum.splits)
qed

lemma list_ex_single: "set xs \<subseteq> {x} \<Longrightarrow> list_ex P xs = (xs \<noteq> [] \<and> P x)"
  by (induction xs) auto

lemma contributes_code:
  assumes "set selectedEngines \<subseteq> set validEngines"
  shows "contributes selectedEngines n =
     (\<not> inBundle n \<and>
      (case engines n of
         None \<Rightarrow> False
       | Some es \<Rightarrow> list_ex (\<lambda>engine. truthy (map_of es engine)) selectedEngines
                   \<and> list_ex (\<lambda>engine. map_of es engine \<noteq> Some ''*'') selectedEngines))"
proof -
  have s: "set selectedEngines \<subseteq> {''node''}" using assms by (simp add: validEngines_def)
  show ?thesis
    by (auto simp: contributes_def declares_def truthy_def list_ex_single[OF s]
             split: option.splits if_splits)
qed

lemma pGraphEntries_contributes:
  assumes "set selectedEngines \<subseteq> set validEngines"
  shows "pGraphEntries selectedEngines inventory =
     List.map_filter
       (\<lambda>n. if contributes selectedEngines n then map_option (Pair (name n)) (engines n) else None)
       inventory"
proof -
  have cons: "pGraphEntries selectedEngines (n # ns) =
      (case (if contributes selectedEngines n then map_option (Pair (name n)) (engines n) else None) of
         None \<Rightarrow> pGraphEntries selectedEngines ns
       | Some t \<Rightarrow> t # pGraphEntries selectedEngines ns)" for n ns
    by (auto simp: pGraphEntries_def Let_def map_filter_simps contributes_code[OF assms]
             split: option.splits)
  show ?thesis
  proof (induction inventory)
    case Nil
    show ?case by (simp add: pGraphEntries_def map_filter_simps)
  next
    case (Cons n ns)
    then show ?case by (simp add: cons map_filter_simps split: option.splits)
  qed
qed

lemma set_map_filter: "set (List.map_filter f xs) = {y. \<exists>x\<in>set xs. f x = Some y}"
  by (induction xs) (auto simp: map_filter_simps split: option.splits)

lemma pGraphEntries_none:
  assumes "set selectedEngines \<subseteq> set validEngines"
    and "list_all (\<lambda>n. \<not> contributes selectedEngines n) inventory"
  shows "pGraphEntries selectedEngines inventory = []"
  using assms(2) unfolding pGraphEntries_contributes[OF assms(1)]
  by (induction inventory) (simp_all add: map_filter_simps)

lemma stripZeros_star: "stripZeros ''*'' = ''*''"
  by simp

lemma candidateRange_wildcard:
  "graphEntries = [] \<or> versions = [] \<Longrightarrow>
   candidateRange graphEntries versions = Inr \<lparr>raw = ''*'', comparators = [[ANY]]\<rparr>"
  by (auto simp: candidateRange_def validMajorRangesOf_def bindE_def Semver_Range_star Let_def)

lemma graphRangeOf_wildcard:
  assumes "graphEntries = [] \<or> versions = []" and "list_all releaseVersion versions"
  shows "graphRangeOf graphEntries engine versions =
     Inr \<lparr>displayRange = ''*'', validRange = \<lparr>raw = ''*'', comparators = [[ANY]]\<rparr>\<rparr>"
  using assms(2)
  by (simp add: graphRangeOf_def candidateRange_wildcard[OF assms(1)] bindE_def Range_test_star
        list_all_iff)

lemma pGraphRanges_single:
  assumes "getGraphValids [(engine, catalog)] L = Inr gv" and "valids gv = Plain [(engine, V)]"
  shows "pGraphRanges [(engine, catalog)] L =
     bindE (graphRangeOf L engine V)
       (\<lambda>r. Inr \<lparr>graph_allowed = allowed gv,
                  graph_engines = [(engine, displayRange r)],
                  graph_ranges = [(engine, r)],
                  graph_valids =
                    map (\<lambda>e. (e, map_of [(engine, ConstraintFilter catalog (orStar (Some (displayRange r))))] e))
                        validEngines\<rparr>)"
  using assms
  by (simp add: pGraphRanges_def bindE_def validVersionsForEngines_single Let_def split: sum.splits)

lemma ConstraintFilter_release: "list_all releaseVersion (ConstraintFilter catalog ''*'')"
  by (simp add: ConstraintFilter_def list_all_iff satisfies_star)

lemma pGraphRanges_no_entries:
  "pGraphRanges [(''node'', catalog)] [] =
     Inr \<lparr>graph_allowed = [], graph_engines = [], graph_ranges = [],
          graph_valids = [(''node'', Some (ConstraintFilter catalog ''*''))]\<rparr>"
  by (simp add: pGraphRanges_def getGraphValids_empty bindE_def validEngines_def
        validVersionsForEngines_single orStar_def)

lemma graphRangeOf_check:
  assumes "candidateRange L V = Inr c"
  shows "graphRangeOf L engine V =
     (if list_all (Range_test c) V
      then Inr \<lparr>displayRange = (if raw c = [] then raw c else stripZeros (raw c)), validRange = c\<rparr>
      else Inl (RangeError (reportMessage engine V c)))"
  by (simp add: graphRangeOf_def assms bindE_def)

lemma graphRangeOf_Inr:
  assumes "graphRangeOf L engine V = Inr r"
  shows "list_all (Range_test (validRange r)) V"
proof (cases "candidateRange L V")
  case (Inl e)
  with assms show ?thesis by (simp add: graphRangeOf_def bindE_def)
next
  case (Inr c)
  from assms show ?thesis
    unfolding graphRangeOf_check[OF Inr] by (auto split: if_splits)
qed

lemma parseRange_empty: "parseRange [] = Some [[ANY]]"
  by code_simp

section \<open>Released versions always get the threshold\<close>

lemma digitChar_values:
  "digitChar 0 = CHR ''0''" "digitChar (Suc 0) = CHR ''1''" "digitChar 2 = CHR ''2''"
  "digitChar 3 = CHR ''3''" "digitChar 4 = CHR ''4''" "digitChar 5 = CHR ''5''"
  "digitChar 6 = CHR ''6''" "digitChar 7 = CHR ''7''" "digitChar 8 = CHR ''8''"
  "digitChar 9 = CHR ''9''"
  by code_simp+

lemma digitChar_cases:
  assumes "k < 10"
  shows "digitChar k \<in> set ''0123456789'' \<and> digitVal (digitChar k) = k \<and> (k \<noteq> 0 \<longrightarrow> digitChar k \<noteq> CHR ''0'')"
proof -
  from assms have "k = 0 \<or> k = 1 \<or> k = 2 \<or> k = 3 \<or> k = 4 \<or> k = 5 \<or> k = 6 \<or> k = 7 \<or> k = 8 \<or> k = 9"
    by arith
  then show ?thesis
    by (elim disjE) (simp_all add: digitChar_values digitVal_def)
qed

lemma isDigit_digitChar: "k < 10 \<Longrightarrow> isDigit (digitChar k)"
  using digitChar_cases[of k] by (simp add: isDigit_def)

lemma showNat_nonempty: "showNat n \<noteq> []"
  by (subst showNat.simps) simp

lemma showNat_digits: "list_all isDigit (showNat n)"
proof (induction n rule: showNat.induct)
  case (1 n)
  show ?case
  proof (cases "n < 10")
    case True
    then show ?thesis by (subst showNat.simps) (simp add: isDigit_digitChar)
  next
    case False
    with 1 show ?thesis by (subst showNat.simps) (simp add: isDigit_digitChar)
  qed
qed

lemma toNat_snoc: "toNat (xs @ [c]) = 10 * toNat xs + digitVal c"
  by (simp add: toNat_def)

lemma toNat_showNat: "toNat (showNat n) = n"
proof (induction n rule: showNat.induct)
  case (1 n)
  show ?case
  proof (cases "n < 10")
    case True
    then show ?thesis
      using digitChar_cases[of n] by (subst showNat.simps) (simp add: toNat_def)
  next
    case False
    then have "toNat (showNat (n div 10)) = n div 10" using 1 by simp
    then show ?thesis
      using False digitChar_cases[of "n mod 10"]
      by (subst showNat.simps) (simp add: toNat_snoc)
  qed
qed

lemma showNat_leading: "10 \<le> n \<Longrightarrow> hd (showNat n) \<noteq> CHR ''0'' \<and> length (showNat n) \<noteq> 1"
proof (induction n rule: showNat.induct)
  case (1 n)
  then have ge: "\<not> n < 10" by simp
  show ?case
  proof (cases "n div 10 < 10")
    case True
    have "n div 10 \<noteq> 0" using 1(2) by simp
    then have "digitChar (n div 10) \<noteq> CHR ''0''" using True digitChar_cases[of "n div 10"] by simp
    moreover have "showNat (n div 10) = [digitChar (n div 10)]"
      using True by (subst showNat.simps) simp
    ultimately show ?thesis using ge by (subst (1 2) showNat.simps) simp
  next
    case False
    then have "hd (showNat (n div 10)) \<noteq> CHR ''0''" using 1(1)[OF ge] by simp
    then show ?thesis
      using ge showNat_nonempty[of "n div 10"] by (subst (1 2) showNat.simps) simp
  qed
qed

lemma showNat_single: "n < 10 \<Longrightarrow> length (showNat n) = 1"
  by (subst showNat.simps) simp

lemma numericIdentifier_showNat: "numericIdentifier (showNat n) = Some n"
proof (cases "n < 10")
  case True
  then show ?thesis
    by (simp add: numericIdentifier_def showNat_nonempty showNat_digits showNat_single toNat_showNat)
next
  case False
  then show ?thesis
    using showNat_leading[of n]
    by (simp add: numericIdentifier_def showNat_nonempty showNat_digits toNat_showNat)
qed

lemma splitWhen_none: "\<forall>c\<in>set s. \<not> P c \<Longrightarrow> splitWhen P s = [s]"
  by (induction s) auto

lemma splitWhen_first:
  "\<forall>c\<in>set a. \<not> P c \<Longrightarrow> P sep \<Longrightarrow> splitWhen P (a @ sep # b) = a # splitWhen P b"
  by (induction a) auto

lemma splitOr_none: "CHR ''|'' \<notin> set s \<Longrightarrow> splitOr s = [s]"
  by (induction s rule: splitOr.induct) auto

lemma isDigit_plain:
  "isDigit c \<Longrightarrow> \<not> isSpace c \<and> c \<noteq> CHR ''.'' \<and> c \<noteq> CHR ''-'' \<and> c \<noteq> CHR ''|'' \<and> c \<noteq> CHR ''v''
     \<and> c \<noteq> CHR ''x'' \<and> c \<noteq> CHR ''X'' \<and> c \<noteq> CHR ''*''"
  by (auto simp: isDigit_def isSpace_def)

lemma parseXid_showNat: "parseXid (showNat n) = Some (N n)"
proof -
  have "hd (showNat n) \<in> set (showNat n)" using showNat_nonempty by simp
  then have "isDigit (hd (showNat n))" using showNat_digits[of n] by (simp add: list_all_iff)
  then have "showNat n \<noteq> ''x'' \<and> showNat n \<noteq> ''X'' \<and> showNat n \<noteq> ''*''"
    using isDigit_plain[of "hd (showNat n)"] by auto
  then show ?thesis by (simp add: parseXid_def numericIdentifier_showNat)
qed

lemma parsePartial_major_minor:
  "parsePartial (showNat M @ ''.'' @ showNat m) = Some (N M, N m, X, [])"
proof -
  let ?s = "showNat M @ ''.'' @ showNat m"
  have dM: "\<forall>c\<in>set (showNat M). isDigit c" and dm: "\<forall>c\<in>set (showNat m). isDigit c"
    using showNat_digits by (simp_all add: list_all_iff)
  obtain c cs where M: "showNat M = c # cs" using showNat_nonempty[of M] by (cases "showNat M") auto
  have "isDigit c" using dM M by simp
  then have v: "stripV ?s = ?s" using isDigit_plain[of c] by (simp add: stripV_def M)
  have nodash: "\<forall>c\<in>set ?s. c \<noteq> CHR ''-''"
    using dM dm isDigit_plain by auto
  then have tw: "takeWhile (\<lambda>c. c \<noteq> CHR ''-'') ?s = ?s"
    by (simp add: takeWhile_eq_all_conv)
  have sp: "splitOn CHR ''.'' ?s = [showNat M, showNat m]"
    unfolding splitOn_def
    using splitWhen_first[of "showNat M" "\<lambda>c. c = CHR ''.''" "CHR ''.''" "showNat m"]
          splitWhen_none[of "showNat m" "\<lambda>c. c = CHR ''.''"] dM dm isDigit_plain
    by auto
  have nd: "CHR ''-'' \<notin> set ?s" using nodash by blast
  show ?thesis
    unfolding parsePartial_def v Let_def tw sp using nd
    by (simp add: parseXid_showNat)
qed

lemma parseRange_threshold:
  "parseRange (''>= '' @ showNat M @ ''.'' @ showNat m) = Some [[Comparator Ge (SemVer M m 0 [])]]"
proof -
  let ?v = "showNat M @ ''.'' @ showNat m"
  have d: "\<forall>c\<in>set ?v. \<not> isSpace c \<and> c \<noteq> CHR ''|''"
    using showNat_digits[of M] showNat_digits[of m] isDigit_plain
    by (auto simp: list_all_iff isSpace_def)
  have ne: "?v \<noteq> []" using showNat_nonempty by simp
  have or: "splitOr (''>= '' @ ?v) = [''>= '' @ ?v]"
    using d by (intro splitOr_none) auto
  have "splitWhen isSpace (''>='' @ CHR '' '' # ?v) = ''>='' # splitWhen isSpace ?v"
    by (rule splitWhen_first) (auto simp: isSpace_def)
  moreover have "splitWhen isSpace ?v = [?v]" using d by (intro splitWhen_none) auto
  ultimately have w: "wordsOf (''>= '' @ ?v) = [''>='', ?v]"
    using ne by (simp add: wordsOf_def)
  have t: "trimOperators [''>='', ?v] = [''>='' @ ?v]"
    by (simp add: isOperatorToken_def)
  have c: "parseComparator (''>='' @ ?v) = Some [Comparator Ge (SemVer M m 0 [])]"
    using parsePartial_major_minor[of M m] by (simp add: parseComparator_def)
  have "parseComparatorSet (''>= '' @ ?v) = Some [Comparator Ge (SemVer M m 0 [])]"
    unfolding parseComparatorSet_def w t using c by simp
  then show ?thesis unfolding parseRange_def or by simp
qed

lemma consHead_hd: "\<exists>w ws. consHead c xs = (c # w) # ws"
  by (cases xs) auto

lemma numericIdentifier_hd: "numericIdentifier (c # w) = Some n \<Longrightarrow> isDigit c"
  by (auto simp: numericIdentifier_def split: if_splits)

lemma body_hd:
  assumes "map numericIdentifier (splitOn CHR ''.'' (takeWhile (\<lambda>c. c \<noteq> CHR ''-'') s))
             = [Some M, Some m, Some p]"
  shows "\<exists>c cs. s = c # cs \<and> isDigit c"
proof (cases s)
  case Nil
  with assms show ?thesis by (simp add: splitOn_def)
next
  case (Cons c cs)
  show ?thesis
  proof (cases "c = CHR ''-'' \<or> c = CHR ''.''")
    case True
    with assms Cons show ?thesis
      by (auto simp: splitOn_def numericIdentifier_def)
  next
    case False
    obtain w ws where "consHead c (splitWhen (\<lambda>c. c = CHR ''.'') (takeWhile (\<lambda>c. c \<noteq> CHR ''-'') cs)) = (c # w) # ws"
      using consHead_hd by blast
    with assms Cons False have "numericIdentifier (c # w) = Some M"
      by (simp add: splitOn_def)
    then have "isDigit c" by (rule numericIdentifier_hd)
    with Cons show ?thesis by simp
  qed
qed

lemma parseVersion_body:
  assumes "parseVersion v = Some sv"
  shows "\<exists>M m p. map numericIdentifier (splitOn CHR ''.'' (takeWhile (\<lambda>c. c \<noteq> CHR ''-'') (stripV v)))
             = [Some M, Some m, Some p]"
  using assms unfolding parseVersion_def Let_def
  by (auto split: list.splits option.splits)

lemma parseVersion_stripV:
  assumes "parseVersion v = Some sv"
  shows "parseVersion (stripV v) = Some sv"
proof -
  from parseVersion_body[OF assms] obtain M m p where
    "map numericIdentifier (splitOn CHR ''.'' (takeWhile (\<lambda>c. c \<noteq> CHR ''-'') (stripV v)))
             = [Some M, Some m, Some p]" by auto
  from body_hd[OF this] obtain c cs where s: "stripV v = c # cs" and d: "isDigit c" by blast
  from d have "c \<noteq> CHR ''v''" by (auto simp: isDigit_def)
  then have "stripV (c # cs) = c # cs" by (simp add: stripV_def)
  then have "stripV (stripV v) = stripV v" by (simp add: s)
  then have "parseVersion (stripV v) = parseVersion v"
    by (simp add: parseVersion_def)
  with assms show ?thesis by simp
qed

lemma dropPatch_valid:
  assumes "parseVersion v = Some sv"
  shows "dropPatch v = Inr (''^'' @ showNat (major sv) @ ''.'' @ showNat (minor sv))"
  using parseVersion_stripV[OF assms]
  by (simp add: dropPatch_def Semver_major_def Semver_minor_def bindE_def Let_def)

lemma mapE_Inr: "\<forall>x\<in>set xs. f x = Inr (g x) \<Longrightarrow> mapE f xs = Inr (map g xs)"
  by (induction xs) (auto simp: bindE_def)

lemma anchors_hd:
  "V \<noteq> [] \<Longrightarrow>
   foldr (\<lambda>v prev. anchorStep prev v) V [] \<noteq> []
   \<and> hd (foldr (\<lambda>v prev. anchorStep prev v) V []) = last V
   \<and> set (foldr (\<lambda>v prev. anchorStep prev v) V []) \<subseteq> set V"
proof (induction V)
  case Nil
  then show ?case by simp
next
  case (Cons v V)
  show ?case
  proof (cases "V = []")
    case True
    then show ?thesis by (simp add: anchorStep_def)
  next
    case False
    with Cons.IH show ?thesis by (auto simp: anchorStep_def)
  qed
qed

lemma comparePreLoop_refl: "comparePreLoop p p = 0"
  by (simp add: comparePreLoop_zero)

lemma compareVer_refl: "compareVer a a = 0"
  by (simp add: compareVer_def comparePre_def comparePreLoop_refl)

lemma compareVer_floor:
  "prerelease lo = [] \<Longrightarrow> 0 \<le> compareVer lo (SemVer (major lo) (minor lo) 0 [])"
  by (simp add: compareVer_def compareNat_def comparePre_def)

lemma sorted_wrt_last:
  "sorted_wrt R xs \<Longrightarrow> x \<in> set xs \<Longrightarrow> x = last xs \<or> R x (last xs)"
  by (induction xs) (auto split: if_splits)

lemma Range_test_threshold:
  assumes "parseVersion v = Some sv" and "prerelease sv = []"
  shows "Range_test \<lparr>raw = r, comparators = [[Comparator Ge T]]\<rparr> v = (0 \<le> compareVer sv T)"
  using assms by (simp add: Range_test_def testSet_def cmp_def)

lemma Semver_Range_threshold:
  "Semver_Range (''>= '' @ showNat M @ ''.'' @ showNat m) =
     Inr \<lparr>raw = ''>= '' @ showNat M @ ''.'' @ showNat m,
          comparators = [[Comparator Ge (SemVer M m 0 [])]]\<rparr>"
  using parseRange_threshold[of M m] by (simp add: Semver_Range_def)

lemma releaseVersion_parse:
  "releaseVersion v \<Longrightarrow> \<exists>sv. parseVersion v = Some sv \<and> prerelease sv = []"
  by (auto simp: releaseVersion_def split: option.splits)

lemma above_floor:
  assumes "list_all releaseVersion V" and "descending V" and "parseVersion (last V) = Some lo"
    and "v \<in> set V" and "parseVersion v = Some sv"
  shows "0 \<le> compareVer sv (SemVer (major lo) (minor lo) 0 [])"
proof -
  have "releaseVersion (last V)" using assms(1,4) by (cases V) (auto simp: list_all_iff)
  then have plo: "prerelease lo = []" using assms(3) by (simp add: releaseVersion_def)
  have 1: "0 \<le> compareVer sv lo"
  proof -
    from sorted_wrt_last[OF assms(2)[unfolded descending_def] assms(4)]
    show ?thesis
    proof
      assume "v = last V"
      with assms(3,5) show ?thesis by (simp add: compareVer_refl)
    next
      assume "precedes v (last V)"
      with assms(3,5) show ?thesis by (simp add: precedes_def)
    qed
  qed
  from compareVer_trans[OF 1 compareVer_floor[OF plo]] show ?thesis .
qed

lemma threshold_for_releases:
  assumes "L \<noteq> []" and "V \<noteq> []" and "list_all releaseVersion V" and "descending V"
    and "parseVersion (last V) = Some lo"
  shows "graphRangeOf L engine V =
     Inr \<lparr>displayRange = stripZeros (''>= '' @ showNat (major lo) @ ''.'' @ showNat (minor lo)),
          validRange = \<lparr>raw = ''>= '' @ showNat (major lo) @ ''.'' @ showNat (minor lo),
                        comparators = [[Comparator Ge (SemVer (major lo) (minor lo) 0 [])]]\<rparr>\<rparr>"
proof -
  let ?A = "foldr (\<lambda>v prev. anchorStep prev v) V []"
  let ?g = "\<lambda>a. ''^'' @ showNat (major (the (parseVersion a))) @ ''.'' @ showNat (minor (the (parseVersion a)))"
  let ?thr = "''>= '' @ showNat (major lo) @ ''.'' @ showNat (minor lo)"
  let ?T = "SemVer (major lo) (minor lo) 0 []"
  note srt = Semver_Range_threshold[of "major lo" "minor lo", unfolded append.simps]
  from anchors_hd[OF assms(2)] have A: "?A \<noteq> []" "hd ?A = last V" "set ?A \<subseteq> set V" by auto
  have "\<forall>a\<in>set ?A. dropPatch a = Inr (?g a)"
  proof
    fix a assume "a \<in> set ?A"
    then have "releaseVersion a" using A(3) assms(3) by (auto simp: list_all_iff)
    then obtain sv where "parseVersion a = Some sv" using releaseVersion_parse by blast
    then show "dropPatch a = Inr (?g a)" using dropPatch_valid by simp
  qed
  then have m: "mapE dropPatch ?A = Inr (map ?g ?A)" by (rule mapE_Inr)
  define R where "R = rev (map ?g ?A)"
  have vm: "validMajorRangesOf L V = Inr R"
    using assms(1,2) by (simp add: validMajorRangesOf_def m bindE_def R_def)
  have Rne: "R \<noteq> []" using A(1) by (simp add: R_def)
  have lst: "last R = CHR ''^'' # showNat (major lo) @ ''.'' @ showNat (minor lo)"
    using A(1,2) assms(5) by (simp add: R_def last_rev hd_map)
  have sat: "\<forall>v\<in>set V. Semver_satisfies v ?thr \<and> Range_test \<lparr>raw = ?thr, comparators = [[Comparator Ge ?T]]\<rparr> v"
  proof
    fix v assume v: "v \<in> set V"
    then have "releaseVersion v" using assms(3) by (simp add: list_all_iff)
    then obtain sv where sv: "parseVersion v = Some sv" "prerelease sv = []"
      using releaseVersion_parse by blast
    have "0 \<le> compareVer sv ?T" using above_floor[OF assms(3,4,5) v sv(1)] .
    then have "Range_test \<lparr>raw = ?thr, comparators = [[Comparator Ge ?T]]\<rparr> v"
      using Range_test_threshold[OF sv] by simp
    then show "Semver_satisfies v ?thr \<and> Range_test \<lparr>raw = ?thr, comparators = [[Comparator Ge ?T]]\<rparr> v"
      by (simp add: Semver_satisfies_def srt)
  qed
  have cand: "candidateRange L V = Inr \<lparr>raw = ?thr, comparators = [[Comparator Ge ?T]]\<rparr>"
    using Rne sat
    by (simp add: candidateRange_def vm bindE_def lst Let_def stripCaret_def list_all_iff srt)
  show ?thesis
    using sat by (simp add: graphRangeOf_check[OF cand] list_all_iff)
qed

lemma threshold_filter:
  assumes "list_all releaseVersion catalog"
  shows "set (filter (Range_test \<lparr>raw = r, comparators = [[Comparator Ge T]]\<rparr>) catalog)
         = {v \<in> set catalog. atOrAbove T v}"
proof -
  have "Range_test \<lparr>raw = r, comparators = [[Comparator Ge T]]\<rparr> v = atOrAbove T v"
    if "v \<in> set catalog" for v
  proof -
    from that assms have "releaseVersion v" by (simp add: list_all_iff)
    then obtain sv where sv: "parseVersion v = Some sv" "prerelease sv = []"
      using releaseVersion_parse by blast
    show ?thesis using Range_test_threshold[OF sv, of r T] sv(1) by (simp add: atOrAbove_def)
  qed
  then show ?thesis by auto
qed

lemma pGraphRanges_returns:
  assumes "list_all releaseVersion catalog"
  shows "\<exists>out. pGraphRanges [(''node'', catalog)] L = Inr out"
proof (cases "L = []")
  case True
  then show ?thesis by (simp add: pGraphRanges_no_entries)
next
  case False
  from graph_intersection[OF False, of "''node''" catalog] obtain V where
    g: "getGraphValids [(''node'', catalog)] L =
       Inr \<lparr>allowed = map (\<lambda>(nm, es). (nm, es, [(''node'', ConstraintFilter catalog (declaredRange ''node'' es))])) L,
            valids = Plain [(''node'', V)]\<rparr>"
    and s: "set V = {v \<in> set catalog. \<forall>(nm, es)\<in>set L. v \<in> set (ConstraintFilter catalog (declaredRange ''node'' es))}"
    and d: "descending V"
    by blast
  have rel: "list_all releaseVersion V" using s assms by (auto simp: list_all_iff)
  have "\<exists>r. graphRangeOf L ''node'' V = Inr r"
  proof (cases "V = []")
    case True
    then show ?thesis by (simp add: graphRangeOf_wildcard)
  next
    case ne: False
    then have "releaseVersion (last V)" using rel by (simp add: list_all_iff)
    then obtain lo where "parseVersion (last V) = Some lo" using releaseVersion_parse by blast
    from threshold_for_releases[OF False ne rel d this] show ?thesis by blast
  qed
  then obtain r where r: "graphRangeOf L ''node'' V = Inr r" by blast
  show ?thesis
    by (simp add: pGraphRanges_single[OF g] r bindE_def)
qed

section \<open>The claims\<close>

text \<open>
  C1 (as amended).  On a catalog of released versions and for a non-empty constraint
  list, the graph resolver produces a valid set \<open>V\<close> and the synthesizer a range for it,
  and filtering the full catalog with that range (the parsed range, before cosmetic
  stripping) gives a set between \<open>V\<close> and the catalog versions at or above the floor of
  \<open>V\<close>: no member of \<open>V\<close> is outside the range, and no catalog version below
  \<open>major.minor.0\<close> of the lowest member of \<open>V\<close> satisfies it.  When \<open>V\<close> has no
  holes (it contains every catalog version at or above that floor), filtering yields
  exactly \<open>V\<close>.
\<close>

theorem C1_exact_without_holes:
  assumes "list_all releaseVersion catalog" and "L \<noteq> []"
  shows "\<exists>gv V out r.
     getGraphValids [(''node'', catalog)] L = Inr gv \<and> valids gv = Plain [(''node'', V)]
     \<and> descending V
     \<and> pGraphRanges [(''node'', catalog)] L = Inr out \<and> graph_ranges out = [(''node'', r)]
     \<and> set V \<subseteq> set (filter (Range_test (validRange r)) catalog)
     \<and> (\<forall>fl. floorOf V = Some fl \<longrightarrow>
           set (filter (Range_test (validRange r)) catalog) \<subseteq> {v \<in> set catalog. atOrAbove fl v})
     \<and> (withoutHoles catalog V \<longrightarrow> set (filter (Range_test (validRange r)) catalog) = set V)"
proof -
  from graph_intersection[OF assms(2), of "''node''" catalog] obtain V where
    g: "getGraphValids [(''node'', catalog)] L =
       Inr \<lparr>allowed = map (\<lambda>(nm, es). (nm, es, [(''node'', ConstraintFilter catalog (declaredRange ''node'' es))])) L,
            valids = Plain [(''node'', V)]\<rparr>"
    and s: "set V = {v \<in> set catalog. \<forall>(nm, es)\<in>set L. v \<in> set (ConstraintFilter catalog (declaredRange ''node'' es))}"
    and d: "descending V"
    by blast
  let ?gv = "\<lparr>allowed = map (\<lambda>(nm, es). (nm, es, [(''node'', ConstraintFilter catalog (declaredRange ''node'' es))])) L,
            valids = Plain [(''node'', V)]\<rparr>"
  have sub: "set V \<subseteq> set catalog" using s by auto
  have rel: "list_all releaseVersion V" using sub assms(1) by (auto simp: list_all_iff)
  have out: "graphRangeOf L ''node'' V = Inr r \<Longrightarrow>
     \<exists>out. pGraphRanges [(''node'', catalog)] L = Inr out \<and> graph_ranges out = [(''node'', r)]" for r
    by (simp add: pGraphRanges_single[OF g] bindE_def)
  show ?thesis
  proof (cases "V = []")
    case True
    have r: "graphRangeOf L ''node'' V = Inr \<lparr>displayRange = ''*'', validRange = \<lparr>raw = ''*'', comparators = [[ANY]]\<rparr>\<rparr>"
      using True by (simp add: graphRangeOf_wildcard)
    from out[OF r] obtain out where
      o: "pGraphRanges [(''node'', catalog)] L = Inr out"
         "graph_ranges out = [(''node'', \<lparr>displayRange = ''*'', validRange = \<lparr>raw = ''*'', comparators = [[ANY]]\<rparr>\<rparr>)]"
      by blast
    have "floorOf V = None" "\<not> withoutHoles catalog V" using True by (simp_all add: floorOf_def withoutHoles_def)
    with g d o True show ?thesis by auto
  next
    case False
    then have "releaseVersion (last V)" using rel by (simp add: list_all_iff)
    then obtain lo where lo: "parseVersion (last V) = Some lo" using releaseVersion_parse by blast
    let ?T = "SemVer (major lo) (minor lo) 0 []"
    let ?thr = "''>= '' @ showNat (major lo) @ ''.'' @ showNat (minor lo)"
    let ?r = "\<lparr>displayRange = stripZeros ?thr, validRange = \<lparr>raw = ?thr, comparators = [[Comparator Ge ?T]]\<rparr>\<rparr>"
    have r: "graphRangeOf L ''node'' V = Inr ?r"
      by (rule threshold_for_releases[OF assms(2) False rel d lo])
    from out[OF r] obtain out where
      o: "pGraphRanges [(''node'', catalog)] L = Inr out" "graph_ranges out = [(''node'', ?r)]"
      by blast
    have fl: "floorOf V = Some ?T" using False lo by (simp add: floorOf_def)
    have f: "set (filter (Range_test (validRange ?r)) catalog) = {v \<in> set catalog. atOrAbove ?T v}"
      using threshold_filter[OF assms(1), of ?thr ?T] by simp
    have a: "set V \<subseteq> {v \<in> set catalog. atOrAbove ?T v}"
    proof
      fix v assume v: "v \<in> set V"
      then have "releaseVersion v" using rel by (simp add: list_all_iff)
      then obtain sv where sv: "parseVersion v = Some sv" using releaseVersion_parse by blast
      from above_floor[OF rel d lo v sv] sv v sub
      show "v \<in> {v \<in> set catalog. atOrAbove ?T v}" by (auto simp: atOrAbove_def)
    qed
    have e: "withoutHoles catalog V \<longrightarrow> {v \<in> set catalog. atOrAbove ?T v} = set V"
      using a by (auto simp: withoutHoles_def fl list_all_iff)
    have m: "set V \<subseteq> set (filter (Range_test (validRange ?r)) catalog)
       \<and> (\<forall>fl. floorOf V = Some fl \<longrightarrow>
           set (filter (Range_test (validRange ?r)) catalog) \<subseteq> {v \<in> set catalog. atOrAbove fl v})
       \<and> (withoutHoles catalog V \<longrightarrow> set (filter (Range_test (validRange ?r)) catalog) = set V)"
      unfolding f using a e fl by simp
    from g d o m show ?thesis
      by (intro exI[of _ ?gv] exI[of _ V] exI[of _ out] exI[of _ ?r]) simp
  qed
qed

theorem C1_exact_without_holes_witness:
  "list_all releaseVersion thresholdCatalog
   \<and> thresholdEntries \<noteq> []
   \<and> map_sum id (Object_entries \<circ> valids) (getGraphValids [(''node'', thresholdCatalog)] thresholdEntries)
     = Inr [(''node'', [''3.0.0'', ''2.3.0'', ''2.2.0'', ''2.1.0'', ''2.0.0''])]
   \<and> map_sum id graph_ranges (pGraphRanges [(''node'', thresholdCatalog)] thresholdEntries)
     = Inr [(''node'', \<lparr>displayRange = ''>= 2'',
                        validRange = \<lparr>raw = ''>= 2.0'', comparators = [[Comparator Ge (SemVer 2 0 0 [])]]\<rparr>\<rparr>)]
   \<and> floorOf [''3.0.0'', ''2.3.0'', ''2.2.0'', ''2.1.0'', ''2.0.0''] = Some (SemVer 2 0 0 [])
   \<and> withoutHoles thresholdCatalog [''3.0.0'', ''2.3.0'', ''2.2.0'', ''2.1.0'', ''2.0.0'']
   \<and> set (filter (Range_test \<lparr>raw = ''>= 2.0'', comparators = [[Comparator Ge (SemVer 2 0 0 [])]]\<rparr>)
                  thresholdCatalog)
     = set [''3.0.0'', ''2.3.0'', ''2.2.0'', ''2.1.0'', ''2.0.0'']
   \<and> ''1.9.0'' \<in> set thresholdCatalog
   \<and> ''1.9.0'' \<notin> set (filter (Range_test \<lparr>raw = ''>= 2.0'', comparators = [[Comparator Ge (SemVer 2 0 0 [])]]\<rparr>)
                           thresholdCatalog)"
proof -
  let ?V = "[''3.0.0'', ''2.3.0'', ''2.2.0'', ''2.1.0'', ''2.0.0'']"
  let ?c = "\<lparr>raw = ''>= 2.0'', comparators = [[Comparator Ge (SemVer 2 0 0 [])]]\<rparr>"
  have rel: "list_all releaseVersion thresholdCatalog" by code_simp
  have ne: "thresholdEntries \<noteq> []" by (simp add: thresholdEntries_def)
  have g: "map_sum id (Object_entries \<circ> valids) (getGraphValids [(''node'', thresholdCatalog)] thresholdEntries)
     = Inr [(''node'', ?V)]"
    by code_simp
  have p: "map_sum id graph_ranges (pGraphRanges [(''node'', thresholdCatalog)] thresholdEntries)
     = Inr [(''node'', \<lparr>displayRange = ''>= 2'', validRange = ?c\<rparr>)]"
    by code_simp
  have fl: "floorOf ?V = Some (SemVer 2 0 0 [])" by code_simp
  have wh: "withoutHoles thresholdCatalog ?V" by code_simp
  have low: "''1.9.0'' \<in> set thresholdCatalog" by (simp add: thresholdCatalog_def)
  have af: "\<not> atOrAbove (SemVer 2 0 0 []) ''1.9.0''" by code_simp
  from C1_exact_without_holes[OF rel ne] obtain gv V out r where
    t: "getGraphValids [(''node'', thresholdCatalog)] thresholdEntries = Inr gv"
       "valids gv = Plain [(''node'', V)]"
       "pGraphRanges [(''node'', thresholdCatalog)] thresholdEntries = Inr out"
       "graph_ranges out = [(''node'', r)]"
    and up: "\<forall>fl. floorOf V = Some fl \<longrightarrow>
           set (filter (Range_test (validRange r)) thresholdCatalog) \<subseteq> {v \<in> set thresholdCatalog. atOrAbove fl v}"
    and ex: "withoutHoles thresholdCatalog V \<longrightarrow> set (filter (Range_test (validRange r)) thresholdCatalog) = set V"
    by blast
  from g t(1,2) have V: "V = ?V" by simp
  from p t(3,4) have r: "validRange r = ?c" by simp
  from ex wh have e: "set (filter (Range_test ?c) thresholdCatalog) = set ?V"
    unfolding V r by simp
  from up fl af have b: "''1.9.0'' \<notin> set (filter (Range_test ?c) thresholdCatalog)"
    unfolding V r by blast
  from rel ne g p fl wh e low b show ?thesis by simp
qed

theorem C1_round_trip_counterexample:
  "map_sum id (awaited \<circ> valids) (getGraphValids [(''node'', holeCatalog)] holeEntries)
     = Inr [(''node'', [''1.9.0'', ''1.5.0''])]
   \<and> map_sum id (\<lambda>r. filter (Range_test (validRange r)) holeCatalog)
        (graphRangeOf holeEntries ''node'' [''1.9.0'', ''1.5.0''])
     = Inr [''1.5.0'', ''1.7.0'', ''1.9.0'']
   \<and> ''1.7.0'' \<notin> set [''1.9.0'', ''1.5.0'']"
  by code_simp

text \<open>
  C2.  On a catalog with majors 1, 2 and 3 and the valid set 1.5.0, 1.9.0, 3.0.0, 3.2.0
  (the major-2 versions excluded by the package), the program computes the anchors
  \<open>^3.0\<close> and \<open>^1.5\<close> but returns the single threshold \<open>>= 1.5\<close>, which the
  major-2 versions of the catalog satisfy; the union \<open>^3.0 || ^1.5\<close> would denote the
  valid set.
\<close>

theorem C2_threshold_despite_gap:
  "map_sum id (awaited \<circ> valids) (getGraphValids [(''node'', majorsCatalog)] disjointEntries)
     = Inr [(''node'', [''3.2.0'', ''3.0.0'', ''1.9.0'', ''1.5.0''])]
   \<and> validMajorRangesOf disjointEntries [''3.2.0'', ''3.0.0'', ''1.9.0'', ''1.5.0'']
     = Inr [''^3.0'', ''^1.5'']
   \<and> graphRangeOf disjointEntries ''node'' [''3.2.0'', ''3.0.0'', ''1.9.0'', ''1.5.0'']
     = Inr \<lparr>displayRange = ''>= 1.5'',
            validRange = \<lparr>raw = ''>= 1.5'', comparators = [[Comparator Ge (SemVer 1 5 0 [])]]\<rparr>\<rparr>
   \<and> ConstraintFilter majorsCatalog ''>= 1.5''
     = [''1.5.0'', ''1.9.0'', ''2.0.0'', ''2.3.0'', ''3.0.0'', ''3.2.0'']
   \<and> ConstraintFilter majorsCatalog ''^3.0 || ^1.5'' = [''1.5.0'', ''1.9.0'', ''3.0.0'', ''3.2.0'']"
  by code_simp

text \<open>
  C3.  For every non-empty list \<open>L\<close> of per-package constraints and every catalog, the
  graph resolver returns, and its merged result holds exactly the catalog versions that
  lie in the filtered set of every constraint of \<open>L\<close>, sorted descending by
  semantic-version precedence.  For \<open>L = []\<close> the result is not the catalog: the
  \<open>valids\<close> property of the returned object is the Promise of
  \<open>validVersionsForEngines\<close>, which \<open>getGraphValids\<close> does not await (it stands for the
  catalog filtered by \<open>*\<close>), and \<open>Object.entries\<close>, the one reading the program makes
  of it, finds no entry.
\<close>

theorem C3_intersection:
  "(L \<noteq> [] \<longrightarrow>
      (\<exists>gv V. getGraphValids [(''node'', catalog)] L = Inr gv
         \<and> valids gv = Plain [(''node'', V)]
         \<and> set V = {v \<in> set catalog.
                    \<forall>(nm, es)\<in>set L. v \<in> set (ConstraintFilter catalog (declaredRange ''node'' es))}
         \<and> descending V))
   \<and> (\<exists>gv. getGraphValids [(''node'', catalog)] [] = Inr gv
         \<and> valids gv = Promise [(''node'', ConstraintFilter catalog ''*'')]
         \<and> valids gv \<noteq> Plain [(''node'', catalog)]
         \<and> Object_entries (valids gv) = [])"
proof (intro conjI impI)
  assume ne: "L \<noteq> []"
  from graph_intersection[OF ne, of "''node''" catalog]
  show "\<exists>gv V. getGraphValids [(''node'', catalog)] L = Inr gv
         \<and> valids gv = Plain [(''node'', V)]
         \<and> set V = {v \<in> set catalog.
                    \<forall>(nm, es)\<in>set L. v \<in> set (ConstraintFilter catalog (declaredRange ''node'' es))}
         \<and> descending V"
    by fastforce
next
  show "\<exists>gv. getGraphValids [(''node'', catalog)] [] = Inr gv
         \<and> valids gv = Promise [(''node'', ConstraintFilter catalog ''*'')]
         \<and> valids gv \<noteq> Plain [(''node'', catalog)]
         \<and> Object_entries (valids gv) = []"
    by (simp add: getGraphValids_empty)
qed

theorem C3_intersection_witness:
  "twoEntries \<noteq> []
   \<and> map_sum id valids (getGraphValids [(''node'', majorsCatalog)] twoEntries)
     = Inr (Plain [(''node'', [''3.2.0'', ''3.0.0'', ''1.9.0'', ''1.5.0''])])
   \<and> set [''3.2.0'', ''3.0.0'', ''1.9.0'', ''1.5.0'']
       = set (ConstraintFilter majorsCatalog ''>=1.5'') \<inter> set (ConstraintFilter majorsCatalog ''^1.0 || ^3.0'')
   \<and> descending [''3.2.0'', ''3.0.0'', ''1.9.0'', ''1.5.0'']
   \<and> map_sum id valids (getGraphValids [(''node'', majorsCatalog)] []) = Inr (Promise [(''node'', majorsCatalog)])
   \<and> map_sum id (Object_entries \<circ> valids) (getGraphValids [(''node'', majorsCatalog)] []) = Inr []"
proof -
  have ev: "map_sum id valids (getGraphValids [(''node'', majorsCatalog)] twoEntries)
     = Inr (Plain [(''node'', [''3.2.0'', ''3.0.0'', ''1.9.0'', ''1.5.0''])])"
    by code_simp
  have ne: "twoEntries \<noteq> []" by (simp add: twoEntries_def)
  have st: "ConstraintFilter majorsCatalog ''*'' = majorsCatalog" by code_simp
  from C3_intersection[of twoEntries majorsCatalog] ne obtain gv V where
    g: "getGraphValids [(''node'', majorsCatalog)] twoEntries = Inr gv" "valids gv = Plain [(''node'', V)]"
    and s: "set V = {v \<in> set majorsCatalog.
                     \<forall>(nm, es)\<in>set twoEntries. v \<in> set (ConstraintFilter majorsCatalog (declaredRange ''node'' es))}"
    and d: "descending V"
    by blast
  from ev g have V: "V = [''3.2.0'', ''3.0.0'', ''1.9.0'', ''1.5.0'']" by simp
  have s': "set V = set (ConstraintFilter majorsCatalog ''>=1.5'') \<inter> set (ConstraintFilter majorsCatalog ''^1.0 || ^3.0'')"
    using ConstraintFilter_subset[of majorsCatalog "''>=1.5''"]
    unfolding s by (auto simp: twoEntries_def declaredRange_def orStar_def)
  from C3_intersection[of twoEntries majorsCatalog] obtain gv0 where
    e: "getGraphValids [(''node'', majorsCatalog)] [] = Inr gv0"
       "valids gv0 = Promise [(''node'', ConstraintFilter majorsCatalog ''*'')]"
       "Object_entries (valids gv0) = []"
    by blast
  from ne ev s' d e show ?thesis unfolding V st by simp
qed

text \<open>
  C4.  On an inventory without a contributing record (a bundled package, a wildcard
  package, a package without engines) the list of graph entries is empty and the valid
  versions of the graph output are the full catalog, but the output has no display range
  at all: \<open>getGraphValids\<close> hands over its result as a Promise that it has not awaited,
  the entries of a Promise are empty, and the synthesizer's callback never runs.  On the
  awaited value the callback would have returned \<open>*\<close>.
\<close>

theorem C4_no_display_range:
  "pGraphEntries [''node''] silentInventory = []
   \<and> getGraphValids [(''node'', majorsCatalog)] (pGraphEntries [''node''] silentInventory)
       = Inr \<lparr>allowed = [], valids = Promise [(''node'', majorsCatalog)]\<rparr>
   \<and> pGraphRanges [(''node'', majorsCatalog)] (pGraphEntries [''node''] silentInventory)
       = Inr \<lparr>graph_allowed = [], graph_engines = [], graph_ranges = [],
              graph_valids = [(''node'', Some majorsCatalog)]\<rparr>
   \<and> graphRangeOf [] ''node'' majorsCatalog
       = Inr \<lparr>displayRange = ''*'', validRange = \<lparr>raw = ''*'', comparators = [[ANY]]\<rparr>\<rparr>"
  by code_simp

text \<open>
  C5 (as amended).  The check is one-directional.  Given the candidate range, the
  synthesizer raises the fatal error exactly when re-filtering the catalog with the
  candidate loses a member of the valid set; the message names the engine, the version
  list and the candidate range.  Otherwise it returns the candidate with its display
  string, also when the candidate admits catalog versions outside the valid set.
\<close>

theorem C5_one_directional_check:
  assumes "candidateRange L V = Inr c" and "set V \<subseteq> set catalog"
  shows "graphRangeOf L engine V =
     (if set V \<subseteq> set (filter (Range_test c) catalog)
      then Inr \<lparr>displayRange = (if raw c = [] then raw c else stripZeros (raw c)), validRange = c\<rparr>
      else Inl (RangeError (''please report this: '' @ engine @ '': '' @ join '','' V @ '' / ''
                            @ Range_toString c)))"
proof -
  have "list_all (Range_test c) V \<longleftrightarrow> set V \<subseteq> set (filter (Range_test c) catalog)"
    using assms(2) by (auto simp: list_all_iff)
  then show ?thesis
    by (simp add: graphRangeOf_check[OF assms(1)] reportMessage_def)
qed

theorem C5_one_directional_check_witness:
  "candidateRange candidateEntries [''1.5.0'', ''1.5.0-rc.1'']
     = Inr \<lparr>raw = ''^1.5'',
            comparators = [[Comparator Ge (SemVer 1 5 0 []), Comparator Lt (SemVer 2 0 0 [Num 0])]]\<rparr>
   \<and> set [''1.5.0'', ''1.5.0-rc.1''] \<subseteq> set candidateCatalog
   \<and> filter (Range_test \<lparr>raw = ''^1.5'',
            comparators = [[Comparator Ge (SemVer 1 5 0 []), Comparator Lt (SemVer 2 0 0 [Num 0])]]\<rparr>)
        candidateCatalog = [''1.5.0'']
   \<and> graphRangeOf candidateEntries ''node'' [''1.5.0'', ''1.5.0-rc.1'']
     = Inl (RangeError ''please report this: node: 1.5.0,1.5.0-rc.1 / >=1.5.0 <2.0.0-0'')"
proof -
  let ?c = "\<lparr>raw = ''^1.5'',
            comparators = [[Comparator Ge (SemVer 1 5 0 []), Comparator Lt (SemVer 2 0 0 [Num 0])]]\<rparr>"
  have c: "candidateRange candidateEntries [''1.5.0'', ''1.5.0-rc.1''] = Inr ?c" by code_simp
  have s: "set [''1.5.0'', ''1.5.0-rc.1''] \<subseteq> set candidateCatalog" by code_simp
  have f: "filter (Range_test ?c) candidateCatalog = [''1.5.0'']" by code_simp
  have t: "Range_toString ?c = ''>=1.5.0 <2.0.0-0''" by code_simp
  from C5_one_directional_check[OF c s, of "''node''"]
  have "graphRangeOf candidateEntries ''node'' [''1.5.0'', ''1.5.0-rc.1'']
     = Inl (RangeError ''please report this: node: 1.5.0,1.5.0-rc.1 / >=1.5.0 <2.0.0-0'')"
    unfolding f t by simp
  with c s f show ?thesis by simp
qed

theorem C5_superset_counterexample:
  "map_sum id (awaited \<circ> valids) (getGraphValids [(''node'', gapCatalog)] gapEntries)
     = Inr [(''node'', [''3.0.0'', ''1.5.0''])]
   \<and> graphRangeOf gapEntries ''node'' [''3.0.0'', ''1.5.0'']
     = Inr \<lparr>displayRange = ''>= 1.5'',
            validRange = \<lparr>raw = ''>= 1.5'', comparators = [[Comparator Ge (SemVer 1 5 0 [])]]\<rparr>\<rparr>
   \<and> filter (Range_test \<lparr>raw = ''>= 1.5'', comparators = [[Comparator Ge (SemVer 1 5 0 [])]]\<rparr>)
        gapCatalog = [''1.5.0'', ''2.0.0'', ''3.0.0'']
   \<and> ''2.0.0'' \<notin> set [''3.0.0'', ''1.5.0'']"
  by code_simp

text \<open>
  C6 (as amended).  An unparsable declared range is not treated as absent.  From a
  package it is satisfied by no version, so that package's filtered set and with it the
  graph's valid version set are empty; from the root manifest it makes the root
  resolution fail with the range parser's error.
\<close>

theorem C6_malformed_range:
  "(parseRange r = None \<and> (nm, es) \<in> set L \<and> map_of es ''node'' = Some r \<longrightarrow>
      ConstraintFilter catalog (declaredRange ''node'' es) = []
      \<and> map_sum id (awaited \<circ> valids) (getGraphValids [(''node'', catalog)] L) = Inr [(''node'', [])])
   \<and> (parseRange (replaceEqualsDigit r) = None \<and> map_of es ''node'' = Some r \<longrightarrow>
      pRootRanges allVersions (Some es)
        = Inl (TypeError (''Invalid SemVer Range: '' @ replaceEqualsDigit r)))"
proof (intro conjI impI)
  assume a: "parseRange r = None \<and> (nm, es) \<in> set L \<and> map_of es ''node'' = Some r"
  then have rne: "r \<noteq> []" using parseRange_empty by auto
  with a have d: "declaredRange ''node'' es = r" by (simp add: declaredRange_def orStar_def)
  show e: "ConstraintFilter catalog (declaredRange ''node'' es) = []"
    using a by (simp add: d ConstraintFilter_def satisfies_unparsable)
  from a have ne: "L \<noteq> []" by auto
  from graph_intersection[OF ne, of "''node''" catalog] obtain V where
    g: "getGraphValids [(''node'', catalog)] L =
       Inr \<lparr>allowed = map (\<lambda>(nm, es). (nm, es, [(''node'', ConstraintFilter catalog (declaredRange ''node'' es))])) L,
            valids = Plain [(''node'', V)]\<rparr>"
    and s: "set V = {v \<in> set catalog. \<forall>(nm, es)\<in>set L. v \<in> set (ConstraintFilter catalog (declaredRange ''node'' es))}"
    by blast
  have "set V = {}"
  proof (rule ccontr)
    assume "set V \<noteq> {}"
    then obtain v where "v \<in> set V" by (cases V) auto
    with s have "\<forall>(nm, es)\<in>set L. v \<in> set (ConstraintFilter catalog (declaredRange ''node'' es))"
      by simp
    with a have "v \<in> set (ConstraintFilter catalog (declaredRange ''node'' es))" by blast
    with e show False by simp
  qed
  then show "map_sum id (awaited \<circ> valids) (getGraphValids [(''node'', catalog)] L) = Inr [(''node'', [])]"
    using g by simp
next
  assume a: "parseRange (replaceEqualsDigit r) = None \<and> map_of es ''node'' = Some r"
  then have rne: "r \<noteq> []" using parseRange_empty by auto
  from a have m: "map_of es ''node'' = Some r" by simp
  show "pRootRanges allVersions (Some es) = Inl (TypeError (''Invalid SemVer Range: '' @ replaceEqualsDigit r))"
    using a by (simp add: pRootRanges_declared[OF m rne] Semver_Range_def bindE_def)
qed

theorem C6_malformed_range_witness:
  "parseRange ''not a range'' = None
   \<and> parseRange (replaceEqualsDigit ''not a range'') = None
   \<and> map_sum id (awaited \<circ> valids) (getGraphValids [(''node'', gapCatalog)] malformedEntries) = Inr [(''node'', [])]
   \<and> pRootRanges [(''node'', gapCatalog)] (Some [(''node'', ''not a range'')])
       = Inl (TypeError ''Invalid SemVer Range: not a range'')"
proof -
  have p: "parseRange ''not a range'' = None" by code_simp
  have q: "parseRange (replaceEqualsDigit ''not a range'') = None" by code_simp
  have n: "replaceEqualsDigit ''not a range'' = ''not a range''" by code_simp
  have m: "(''bad'', [(''node'', ''not a range'')]) \<in> set malformedEntries"
    by (simp add: malformedEntries_def)
  from C6_malformed_range[of "''not a range''" "''bad''" "[(''node'', ''not a range'')]" malformedEntries
          gapCatalog "[(''node'', gapCatalog)]"] p q m n
  show ?thesis by simp
qed

theorem C6_not_absent_counterexample:
  "map_sum id (awaited \<circ> valids) (getGraphValids [(''node'', gapCatalog)] malformedEntries) = Inr [(''node'', [])]
   \<and> map_sum id (awaited \<circ> valids) (getGraphValids [(''node'', gapCatalog)] [(''good'', [(''node'', ''>= 2'')])])
       = Inr [(''node'', [''3.0.0'', ''2.0.0''])]
   \<and> map_sum id root_valids (pRootRanges [(''node'', gapCatalog)] (Some [(''node'', ''not a range'')]))
       = Inl (TypeError ''Invalid SemVer Range: not a range'')
   \<and> map_sum id root_valids (pRootRanges [(''node'', gapCatalog)] None)
       = Inr [(''node'', [''1.5.0'', ''2.0.0'', ''3.0.0''])]
   \<and> map_sum id graph_valids (pGraphRanges [(''node'', gapCatalog)] malformedEntries)
       = Inr [(''node'', Some [''1.5.0'', ''2.0.0'', ''3.0.0''])]
   \<and> map_sum id graph_valids (pGraphRanges [(''node'', gapCatalog)] [(''good'', [(''node'', ''>= 2'')])])
       = Inr [(''node'', Some [''2.0.0'', ''3.0.0''])]"
  by code_simp

text \<open>
  C7.  On the catalog 1.0.0 to 1.9.0, 2.0.0 to 2.3.0, 3.0.0 with a valid set equal to every
  catalog version from 2.0.0 upward, the synthesized range is the single threshold
  \<open>>= 2.0\<close> (displayed as \<open>>= 2\<close>), not a union of caret ranges.
\<close>

theorem C7_threshold:
  "map_sum id (awaited \<circ> valids) (getGraphValids [(''node'', thresholdCatalog)] thresholdEntries)
     = Inr [(''node'', [''3.0.0'', ''2.3.0'', ''2.2.0'', ''2.1.0'', ''2.0.0''])]
   \<and> graphRangeOf thresholdEntries ''node'' [''3.0.0'', ''2.3.0'', ''2.2.0'', ''2.1.0'', ''2.0.0'']
     = Inr \<lparr>displayRange = ''>= 2'',
            validRange = \<lparr>raw = ''>= 2.0'', comparators = [[Comparator Ge (SemVer 2 0 0 [])]]\<rparr>\<rparr>
   \<and> map_sum id graph_engines (pGraphRanges [(''node'', thresholdCatalog)] thresholdEntries)
     = Inr [(''node'', ''>= 2'')]"
  by code_simp

text \<open>
  C8.  With the selected engines among the valid engines, an inventory record yields a
  graph entry (its name with its engine mapping) if and only if it is not bundled,
  declares a non-empty range for a selected engine, and one of those declared ranges
  is not \<open>*\<close>; the entries keep the inventory's order.  In particular a bundled
  package and a package that only declares \<open>*\<close> yield no entry.
\<close>

theorem C8_extraction:
  assumes "set selectedEngines \<subseteq> set validEngines"
  shows "pGraphEntries selectedEngines inventory =
           List.map_filter
             (\<lambda>n. if contributes selectedEngines n then map_option (Pair (name n)) (engines n)
                  else None)
             inventory
       \<and> ((nm, es) \<in> set (pGraphEntries selectedEngines inventory) \<longleftrightarrow>
            (\<exists>n\<in>set inventory. contributes selectedEngines n \<and> name n = nm \<and> engines n = Some es))
       \<and> (inBundle n \<longrightarrow> pGraphEntries selectedEngines [n] = [])
       \<and> (engines n = Some [(''node'', ''*'')] \<longrightarrow> pGraphEntries selectedEngines [n] = [])"
proof -
  note eq = pGraphEntries_contributes[OF assms]
  have 1: "(nm, es) \<in> set (pGraphEntries selectedEngines inventory) \<longleftrightarrow>
            (\<exists>n\<in>set inventory. contributes selectedEngines n \<and> name n = nm \<and> engines n = Some es)"
    unfolding eq set_map_filter by (auto split: if_splits)
  have 2: "inBundle n \<longrightarrow> pGraphEntries selectedEngines [n] = []"
    unfolding eq by (simp add: map_filter_simps contributes_def)
  have s: "set selectedEngines \<subseteq> {''node''}" using assms by (simp add: validEngines_def)
  have 3: "engines n = Some [(''node'', ''*'')] \<longrightarrow> pGraphEntries selectedEngines [n] = []"
    unfolding eq by (auto simp: map_filter_simps contributes_def declares_def list_ex_single[OF s])
  from eq 1 2 3 show ?thesis by blast
qed

theorem C8_extraction_witness:
  "pGraphEntries [''node'']
     (\<lparr>name = ''strict'', inBundle = False, engines = Some [(''node'', ''>= 14'')]\<rparr> # silentInventory)
   = [(''strict'', [(''node'', ''>= 14'')])]
   \<and> contributes [''node''] \<lparr>name = ''strict'', inBundle = False, engines = Some [(''node'', ''>= 14'')]\<rparr>
   \<and> list_all (\<lambda>n. \<not> contributes [''node''] n) silentInventory"
proof -
  have v: "set [''node''] \<subseteq> set validEngines" by (simp add: validEngines_def)
  have c: "contributes [''node''] \<lparr>name = ''strict'', inBundle = False, engines = Some [(''node'', ''>= 14'')]\<rparr>"
    by code_simp
  have d: "list_all (\<lambda>n. \<not> contributes [''node''] n) silentInventory"
    by code_simp
  have "pGraphEntries [''node'']
     (\<lparr>name = ''strict'', inBundle = False, engines = Some [(''node'', ''>= 14'')]\<rparr> # silentInventory)
   = [(''strict'', [(''node'', ''>= 14'')])]"
    using C8_extraction[OF v, of "\<lparr>name = ''strict'', inBundle = False, engines = Some [(''node'', ''>= 14'')]\<rparr> # silentInventory"] c d
    by (simp add: map_filter_simps silentInventory_def)
  with c d show ?thesis by simp
qed

text \<open>
  C9.  When the constraint list is not empty but no catalog version lies in every
  package's filtered set, the intersection is empty, the candidate range is \<open>*\<close> and
  passes the check, and the valid versions of the graph output, filtered again from the
  catalog with that display string, are the full catalog (of released versions), not
  the empty set.
\<close>

theorem C9_empty_intersection:
  assumes "L \<noteq> []"
    and "{v \<in> set catalog.
           \<forall>(nm, es)\<in>set L. v \<in> set (ConstraintFilter catalog (declaredRange ''node'' es))} = {}"
    and "list_all releaseVersion catalog"
  shows "map_sum id (awaited \<circ> valids) (getGraphValids [(''node'', catalog)] L) = Inr [(''node'', [])]
       \<and> candidateRange L [] = Inr \<lparr>raw = ''*'', comparators = [[ANY]]\<rparr>
       \<and> map_sum id graph_ranges (pGraphRanges [(''node'', catalog)] L) =
           Inr [(''node'', \<lparr>displayRange = ''*'',
                              validRange = \<lparr>raw = ''*'', comparators = [[ANY]]\<rparr>\<rparr>)]
       \<and> map_sum id graph_engines (pGraphRanges [(''node'', catalog)] L) = Inr [(''node'', ''*'')]
       \<and> map_sum id graph_valids (pGraphRanges [(''node'', catalog)] L) =
           Inr [(''node'', Some catalog)]"
proof -
  from graph_intersection[OF assms(1), of "''node''" catalog] obtain V where
    g: "getGraphValids [(''node'', catalog)] L =
       Inr \<lparr>allowed = map (\<lambda>(nm, es). (nm, es, [(''node'', ConstraintFilter catalog (declaredRange ''node'' es))])) L,
            valids = Plain [(''node'', V)]\<rparr>"
    and s: "set V = {v \<in> set catalog. \<forall>(nm, es)\<in>set L. v \<in> set (ConstraintFilter catalog (declaredRange ''node'' es))}"
    by blast
  from s assms(2) have V: "V = []" by simp
  have c: "ConstraintFilter catalog ''*'' = catalog"
    using assms(3) by (rule ConstraintFilter_star)
  have r: "graphRangeOf L ''node'' [] =
     Inr \<lparr>displayRange = ''*'', validRange = \<lparr>raw = ''*'', comparators = [[ANY]]\<rparr>\<rparr>"
    by (simp add: graphRangeOf_wildcard)
  have p: "pGraphRanges [(''node'', catalog)] L =
     Inr \<lparr>graph_allowed = map (\<lambda>(nm, es). (nm, es, [(''node'', ConstraintFilter catalog (declaredRange ''node'' es))])) L,
          graph_engines = [(''node'', ''*'')],
          graph_ranges = [(''node'', \<lparr>displayRange = ''*'', validRange = \<lparr>raw = ''*'', comparators = [[ANY]]\<rparr>\<rparr>)],
          graph_valids = [(''node'', Some catalog)]\<rparr>"
    using g unfolding V
    by (simp add: pGraphRanges_single[OF g[unfolded V]] r bindE_def validEngines_def orStar_def c)
  show ?thesis
    using g p by (simp add: V candidateRange_wildcard)
qed

theorem C9_empty_intersection_witness:
  "clashEntries \<noteq> []
   \<and> ConstraintFilter majorsCatalog ''^1.0'' = [''1.0.0'', ''1.5.0'', ''1.9.0'']
   \<and> ConstraintFilter majorsCatalog ''^3.0'' = [''3.0.0'', ''3.2.0'']
   \<and> map_sum id (awaited \<circ> valids) (getGraphValids [(''node'', majorsCatalog)] clashEntries) = Inr [(''node'', [])]
   \<and> map_sum id graph_engines (pGraphRanges [(''node'', majorsCatalog)] clashEntries) = Inr [(''node'', ''*'')]
   \<and> map_sum id graph_valids (pGraphRanges [(''node'', majorsCatalog)] clashEntries) =
           Inr [(''node'', Some majorsCatalog)]"
proof -
  have ne: "clashEntries \<noteq> []" by (simp add: clashEntries_def)
  have f1: "ConstraintFilter majorsCatalog ''^1.0'' = [''1.0.0'', ''1.5.0'', ''1.9.0'']" by code_simp
  have f3: "ConstraintFilter majorsCatalog ''^3.0'' = [''3.0.0'', ''3.2.0'']" by code_simp
  have em: "{v \<in> set majorsCatalog.
           \<forall>(nm, es)\<in>set clashEntries. v \<in> set (ConstraintFilter majorsCatalog (declaredRange ''node'' es))} = {}"
    by (auto simp: clashEntries_def declaredRange_def orStar_def f1 f3)
  have r: "list_all releaseVersion majorsCatalog" by code_simp
  have ge: "map_sum id graph_engines (pGraphRanges [(''node'', majorsCatalog)] clashEntries) = Inr [(''node'', ''*'')]"
    by code_simp
  from C9_empty_intersection[OF ne em r] ne f1 f3 ge show ?thesis by simp
qed

text \<open>
  C10.  A root range written \<open>=N\<close> (digits right after the equals sign) is rewritten to
  \<open>= N\<close> before it is parsed, so for every catalog it resolves exactly as the range
  \<open>= N\<close> does.
\<close>

theorem C10_equals_normalized:
  assumes "n \<noteq> []" and "list_all isDigit n"
    and "map_of es1 ''node'' = Some (''='' @ n)"
    and "map_of es2 ''node'' = Some (''= '' @ n)"
  shows "replaceEqualsDigit (''='' @ n) = ''= '' @ n
       \<and> pRootRanges allVersions (Some es1) = pRootRanges allVersions (Some es2)"
proof -
  have j: "replaceEqualsDigit (''='' @ n) = ''= '' @ n"
    using assms(1,2) by (rule replaceEqualsDigit_joined)
  have s: "replaceEqualsDigit (''= '' @ n) = ''= '' @ n"
    using assms(2) by (rule replaceEqualsDigit_spaced)
  have "pRootRanges allVersions (Some es1) = pRootRanges allVersions (Some es2)"
  proof -
    have n1: "''='' @ n \<noteq> []" and n2: "''= '' @ n \<noteq> []" by simp_all
    show ?thesis
      by (simp only: pRootRanges_declared[OF assms(3) n1] pRootRanges_declared[OF assms(4) n2] j s)
  qed
  with j show ?thesis by simp
qed

theorem C10_equals_normalized_witness:
  "pRootRanges [(''node'', rootCatalog)] (Some [(''node'', ''=14'')])
     = pRootRanges [(''node'', rootCatalog)] (Some [(''node'', ''= 14'')])
   \<and> map_sum id root_valids (pRootRanges [(''node'', rootCatalog)] (Some [(''node'', ''=14'')]))
     = Inr [(''node'', [''14.0.0'', ''14.17.3''])]"
proof -
  have d: "list_all isDigit ''14''" by (simp add: isDigit_def)
  have "pRootRanges [(''node'', rootCatalog)] (Some [(''node'', ''='' @ ''14'')])
     = pRootRanges [(''node'', rootCatalog)] (Some [(''node'', ''= '' @ ''14'')])"
    using C10_equals_normalized[of "''14''" "[(''node'', ''='' @ ''14'')]" "[(''node'', ''= '' @ ''14'')]"
            "[(''node'', rootCatalog)]"] d
    by simp
  moreover have "map_sum id root_valids (pRootRanges [(''node'', rootCatalog)] (Some [(''node'', ''=14'')]))
     = Inr [(''node'', [''14.0.0'', ''14.17.3''])]"
    by code_simp
  ultimately show ?thesis by simp
qed

end
